theory Spec2Isabelle
  imports Main
begin

section \<open>pgsqlconsts: constants for SQL table and column names\<close>

text \<open>
  A shallow embedding of \<^verbatim>\<open>main.go\<close>. A Go \<^verbatim>\<open>string\<close> is a sequence of bytes and so is
  HOL's \<^typ>\<open>string\<close>; a \<^verbatim>\<open>rune\<close> is a code point, modelled as a \<^typ>\<open>nat\<close>.
  What the program takes from the Go standard library and from the SQL parser package is
  written out where the library fixes it (UTF-8, the ASCII branch of
  \<^verbatim>\<open>unicode.ToTitle\<close>, \<^verbatim>\<open>strings.Split\<close>) and is a parameter where it is a table or a
  collaborator (the Unicode case table, the parser, the template engine, the formatter).
\<close>

subsection \<open>Strings as the loop \<^verbatim>\<open>for i, c := range s\<close> reads them\<close>

type_synonym rune = nat

definition RuneError :: rune where
  "RuneError = 0xFFFD"

text \<open>
  \<^verbatim>\<open>utf8.DecodeRuneInString\<close>: the code point at the head of the string and its width in
  bytes. The first byte fixes the width and the range the second byte must lie in; an
  invalid or short sequence is \<^verbatim>\<open>RuneError\<close> of width 1. The masks and shifts of the Go
  code are written as \<open>mod\<close> and multiplication (\<^verbatim>\<open>s0&0x1F\<close> is \<open>s0 mod 32\<close>,
  \<^verbatim>\<open>x<<6\<close> is \<open>x * 64\<close>, and \<^verbatim>\<open>|\<close> adds fields that do not overlap).
\<close>

definition decodeRune :: "string \<Rightarrow> rune \<times> nat" where
  "decodeRune s =
    (if length s < 1 then (RuneError, 0)
     else
       let s0 = (of_char (s ! 0) :: nat) in
       if s0 < 0x80 then (s0, 1)
       else if s0 < 0xC2 \<or> 0xF4 < s0 then (RuneError, 1)
       else
         let sz = (if s0 < 0xE0 then 2 else if s0 < 0xF0 then 3 else 4 :: nat);
             lo = (if s0 = 0xE0 then 0xA0 else if s0 = 0xF0 then 0x90 else 0x80 :: nat);
             hi = (if s0 = 0xED then 0x9F else if s0 = 0xF4 then 0x8F else 0xBF :: nat)
         in
         if length s < sz then (RuneError, 1)
         else
           let s1 = (of_char (s ! 1) :: nat) in
           if s1 < lo \<or> hi < s1 then (RuneError, 1)
           else if sz \<le> 2 then ((s0 mod 32) * 64 + s1 mod 64, 2)
           else
             let s2 = (of_char (s ! 2) :: nat) in
             if s2 < 0x80 \<or> 0xBF < s2 then (RuneError, 1)
             else if sz \<le> 3 then ((s0 mod 16) * 4096 + (s1 mod 64) * 64 + s2 mod 64, 3)
             else
               let s3 = (of_char (s ! 3) :: nat) in
               if s3 < 0x80 \<or> 0xBF < s3 then (RuneError, 1)
               else ((s0 mod 8) * 262144 + (s1 mod 64) * 4096 + (s2 mod 64) * 64
                       + s3 mod 64, 4))"

text \<open>
  The pairs \<open>(i, c)\<close> of a \<^verbatim>\<open>range\<close> loop over a string: \<open>i\<close> is the byte index where the
  code point \<open>c\<close> starts. \<open>rangeFrom i s\<close> are the pairs of the rest \<open>s\<close> of the string,
  which starts at index \<open>i\<close>.
\<close>

function rangeFrom :: "nat \<Rightarrow> string \<Rightarrow> (nat \<times> rune) list" where
  "rangeFrom i [] = []"
| "rangeFrom i (b # bs) =
     (i, fst (decodeRune (b # bs)))
       # rangeFrom (i + snd (decodeRune (b # bs))) (drop (snd (decodeRune (b # bs))) (b # bs))"
  by pat_completeness auto
termination
proof (relation "measure (\<lambda>(i, s). length s)")
  show "wf (measure (\<lambda>(i, s). length s))"
    by simp
next
  fix i :: nat and b :: char and bs :: string
  have "1 \<le> snd (decodeRune (b # bs))"
    by (simp add: decodeRune_def Let_def)
  then show "((i + snd (decodeRune (b # bs)), drop (snd (decodeRune (b # bs))) (b # bs)), (i, b # bs))
      \<in> measure (\<lambda>(i, s). length s)"
    by simp
qed

definition rangeString :: "string \<Rightarrow> (nat \<times> rune) list" where
  "rangeString s = rangeFrom 0 s"

text \<open>
  \<^verbatim>\<open>bytes.Buffer.WriteRune\<close>: one byte below \<^verbatim>\<open>utf8.RuneSelf\<close>, else
  \<^verbatim>\<open>utf8.AppendRune\<close>, which writes the encoding of \<^verbatim>\<open>RuneError\<close> for a surrogate and
  for a value above \<^verbatim>\<open>utf8.MaxRune\<close>.
\<close>

definition encodeRune :: "rune \<Rightarrow> string" where
  "encodeRune r =
    (if r < 0x80 then [char_of r]
     else if r \<le> 0x7FF then [char_of (0xC0 + r div 64), char_of (0x80 + r mod 64)]
     else if 0x10FFFF < r \<or> (0xD800 \<le> r \<and> r \<le> 0xDFFF)
       then [char_of (0xEF :: nat), char_of (0xBF :: nat), char_of (0xBD :: nat)]
     else if r \<le> 0xFFFF
       then [char_of (0xE0 + r div 4096), char_of (0x80 + (r div 64) mod 64),
             char_of (0x80 + r mod 64)]
     else [char_of (0xF0 + r div 262144), char_of (0x80 + (r div 4096) mod 64),
           char_of (0x80 + (r div 64) mod 64), char_of (0x80 + r mod 64)])"

subsection \<open>\<^verbatim>\<open>goTitleCase\<close>\<close>

text \<open>
  \<^verbatim>\<open>unicode.ToTitle\<close>: below \<^verbatim>\<open>unicode.MaxASCII\<close> the letters \<^verbatim>\<open>a\<close> to \<^verbatim>\<open>z\<close> lose
  \<^verbatim>\<open>'a' - 'A'\<close>; above, the mapping is read from the Unicode case table
  (\<^verbatim>\<open>unicode.CaseRanges\<close>), here the parameter \<open>caseTable\<close>.
\<close>

definition unicode_ToTitle :: "(rune \<Rightarrow> rune) \<Rightarrow> rune \<Rightarrow> rune" where
  "unicode_ToTitle caseTable r =
    (if r \<le> 0x7F then (if 0x61 \<le> r \<and> r \<le> 0x7A then r - 0x20 else r)
     else caseTable r)"

text \<open>
  One round of the loop of \<^verbatim>\<open>goTitleCase\<close> on the state \<open>(titlecaseNext, buf)\<close>:
  \<^verbatim>\<open>
  if i == 0 || titlecaseNext { c = unicode.ToTitle(c); titlecaseNext = false }
  switch c {
  case ' ': titlecaseNext = true
  case '_': titlecaseNext = true; continue
  }
  buf.WriteRune(c)\<close>
\<close>

definition goTitleCase_step ::
  "(rune \<Rightarrow> rune) \<Rightarrow> bool \<times> string \<Rightarrow> nat \<times> rune \<Rightarrow> bool \<times> string" where
  "goTitleCase_step caseTable st ic =
    (let titlecaseNext = fst st; buf = snd st; i = fst ic; c = snd ic;
         title = (i = 0 \<or> titlecaseNext);
         c = (if title then unicode_ToTitle caseTable c else c);
         titlecaseNext = (if title then False else titlecaseNext)
     in if c = 0x20 then (True, buf @ encodeRune c)
        else if c = 0x5F then (True, buf)
        else (titlecaseNext, buf @ encodeRune c))"

definition goTitleCase :: "(rune \<Rightarrow> rune) \<Rightarrow> string \<Rightarrow> string" where
  "goTitleCase caseTable s =
    (if s = ''id'' then ''ID''
     else snd (foldl (goTitleCase_step caseTable) (False, []) (rangeString s)))"

subsection \<open>The parse tree\<close>

text \<open>
  The node types of the parser package \<^verbatim>\<open>pg_query_go/nodes\<close> that \<^verbatim>\<open>main.go\<close> names.
  The package is not part of this repository; the program reads the fields below, and
  dereferences \<^verbatim>\<open>Relation\<close>, \<^verbatim>\<open>Relname\<close>, \<^verbatim>\<open>Colname\<close> and \<^verbatim>\<open>TypeName\<close>, which are
  pointers: \<open>None\<close> is \<^verbatim>\<open>nil\<close>. A \<^verbatim>\<open>nodes.List\<close> is the list of its \<^verbatim>\<open>Items\<close>.
  \<open>Node_Other T\<close> is a node of any other type, \<open>T\<close> its Go type name as \<^verbatim>\<open>%T\<close> prints it,
  and \<open>Node_nil\<close> is the \<^verbatim>\<open>nil\<close> interface value.
\<close>

datatype range_var = RangeVar (Relname: "string option")

datatype 'n type_name = TypeName (Names: "'n list")

datatype 'n column_def = ColumnDef (Colname: "string option") (typeName: "'n type_name option")

datatype 'n create_stmt = CreateStmt (Relation: "range_var option") (TableElts: "'n list")

datatype node =
    Node_String (Str: string)
  | Node_RawStmt (Stmt: node)
  | Node_CreateStmt "node create_stmt"
  | Node_ColumnDef "node column_def"
  | Node_Other string
  | Node_nil

text \<open>
  What \<^verbatim>\<open>%T\<close> prints for a node: the name of its type after the name of its package.
  \<^verbatim>\<open>main.go\<close> imports the package under the name \<^verbatim>\<open>nodes\<close>; the package names itself
  \<^verbatim>\<open>pg_query\<close>, and that is the name printed.
\<close>

fun goType :: "node \<Rightarrow> string" where
  "goType (Node_String _) = ''pg_query.String''"
| "goType (Node_RawStmt _) = ''pg_query.RawStmt''"
| "goType (Node_CreateStmt _) = ''pg_query.CreateStmt''"
| "goType (Node_ColumnDef _) = ''pg_query.ColumnDef''"
| "goType (Node_Other T) = T"
| "goType Node_nil = ''<nil>''"

subsection \<open>\<^verbatim>\<open>toString\<close>\<close>

text \<open>
  The standard logger writes one line per call to standard error. A function that logs
  returns the lines it wrote, in order, beside its result (a line is the formatted
  message, without the time stamp the logger puts before it).
\<close>

type_synonym log = "string list"

fun toString_step :: "string \<times> log \<Rightarrow> node \<Rightarrow> string \<times> log" where
  "toString_step (buf, lg) (Node_String str) =
     ((if length buf \<noteq> 0 then buf @ '' '' else buf) @ str, lg)"
| "toString_step (buf, lg) n = (buf, lg @ [''unhandled node type: '' @ goType n])"

definition toString :: "node list \<Rightarrow> string \<times> log" where
  "toString nod = foldl toString_step ([], []) nod"

subsection \<open>The template data\<close>

record Column =
  Name :: string
  Type :: string

record Table =
  Name :: string
  Columns :: "Column list"

record Data =
  Package :: string
  Tables :: "Table list"

subsection \<open>Extraction: the three loops of \<^verbatim>\<open>main\<close> before the template\<close>

text \<open>
  The first loop walks the statements, looking for \<^verbatim>\<open>CREATE TABLE\<close>. The inner type
  switch on \<^verbatim>\<open>n.Stmt\<close> has one case and no default; the outer one logs in its default.
\<close>

fun createTables_step :: "node create_stmt list \<times> log \<Rightarrow> node \<Rightarrow> node create_stmt list \<times> log" where
  "createTables_step (createTables, lg) (Node_RawStmt (Node_CreateStmt s)) = (createTables @ [s], lg)"
| "createTables_step (createTables, lg) (Node_RawStmt _) = (createTables, lg)"
| "createTables_step (createTables, lg) (Node_CreateStmt n) = (createTables @ [n], lg)"
| "createTables_step (createTables, lg) n =
     (createTables, lg @ [''unexpected statement type '' @ goType n])"

definition createTables_loop :: "node list \<Rightarrow> node create_stmt list \<times> log" where
  "createTables_loop statements = foldl createTables_step ([], []) statements"

text \<open>
  \<^verbatim>\<open>strings.Split(s, sep)\<close> for a separator of one byte: the substrings between the
  separators, one more than there are separators. \<open>cur\<close> is the substring being read.
\<close>

fun strings_Split_from :: "string \<Rightarrow> string \<Rightarrow> char \<Rightarrow> string list" where
  "strings_Split_from cur [] sep = [cur]"
| "strings_Split_from cur (c # cs) sep =
     (if c = sep then cur # strings_Split_from [] cs sep
      else strings_Split_from (cur @ [c]) cs sep)"

definition strings_Split :: "string \<Rightarrow> char \<Rightarrow> string list" where
  "strings_Split s sep = strings_Split_from [] s sep"

text \<open>
  The second loop fills the map \<^verbatim>\<open>tables\<close> from the flag \<^verbatim>\<open>-tables\<close>. A Go map is a
  finite partial function; \<^verbatim>\<open>len(tables)\<close> is the number of its keys and
  \<^verbatim>\<open>tables[k]\<close> is \<^verbatim>\<open>false\<close> for a key it does not hold.
\<close>

definition tables_of :: "string \<Rightarrow> (string \<rightharpoonup> bool)" where
  "tables_of matchTables =
    (if matchTables \<noteq> []
     then foldl (\<lambda>tables table. tables(table \<mapsto> True)) Map.empty
            (strings_Split matchTables (CHR '',''))
     else Map.empty)"

definition len_map :: "('k \<rightharpoonup> 'v) \<Rightarrow> nat" where
  "len_map m = card (dom m)"

definition index_map :: "(string \<rightharpoonup> bool) \<Rightarrow> string \<Rightarrow> bool" where
  "index_map m k = (case m k of None \<Rightarrow> False | Some b \<Rightarrow> b)"

text \<open>
  The third loop builds the tables. Dereferencing a \<^verbatim>\<open>nil\<close> pointer panics: the run
  stops there, with what was logged before.
\<close>

datatype panic = NilDereference

fun columns_loop :: "node list \<Rightarrow> Column list \<times> log \<Rightarrow> (panic + Column list) \<times> log" where
  "columns_loop [] (columns, lg) = (Inr columns, lg)"
| "columns_loop (Node_ColumnDef cd # items) (columns, lg) =
     (case Colname cd of
        None \<Rightarrow> (Inl NilDereference, lg)
      | Some colname \<Rightarrow>
          (case typeName cd of
             None \<Rightarrow> (Inl NilDereference, lg)
           | Some tn \<Rightarrow>
               columns_loop items
                 (columns @ [\<lparr>Column.Name = colname, Type = fst (toString (Names tn))\<rparr>],
                  lg @ snd (toString (Names tn)))))"
| "columns_loop (col # items) (columns, lg) = columns_loop items (columns, lg)"

fun tables_loop ::
  "(string \<rightharpoonup> bool) \<Rightarrow> node create_stmt list \<Rightarrow> Table list \<times> log \<Rightarrow> (panic + Table list) \<times> log" where
  "tables_loop tables [] (dataTables, lg) = (Inr dataTables, lg)"
| "tables_loop tables (s # createTables) (dataTables, lg) =
     (case Relation s of
        None \<Rightarrow> (Inl NilDereference, lg)
      | Some relation \<Rightarrow>
          (case Relname relation of
             None \<Rightarrow> (Inl NilDereference, lg)
           | Some tableName \<Rightarrow>
               if 0 < len_map tables \<and> \<not> index_map tables tableName
               then tables_loop tables createTables (dataTables, lg)
               else
                 (case columns_loop (TableElts s) ([], lg) of
                    (Inl p, lg') \<Rightarrow> (Inl p, lg')
                  | (Inr columns, lg') \<Rightarrow>
                      tables_loop tables createTables
                        (dataTables @ [\<lparr>Table.Name = tableName, Columns = columns\<rparr>], lg'))))"

text \<open>
  The three loops together: from the parsed statements and the value of the flag
  \<^verbatim>\<open>-tables\<close> to \<^verbatim>\<open>data.Tables\<close> and the lines logged.
\<close>

definition extractTables :: "node list \<Rightarrow> string \<Rightarrow> (panic + Table list) \<times> log" where
  "extractTables statements matchTables =
    (let (createTables, lg) = createTables_loop statements;
         tables = tables_of matchTables
     in tables_loop tables createTables ([], lg))"

subsection \<open>The rest of \<^verbatim>\<open>main\<close>: template, formatter, output\<close>

text \<open>The built-in template, byte for byte.\<close>

definition gencodeTmpl :: string where
  "gencodeTmpl = concat
    [''// Code generated by pgsqlconsts; DO NOT EDIT.\<newline>'',
     ''package {{.Package}}\<newline>'',
     ''\<newline>'',
     ''{{range .Tables}}\<newline>'',
     ''// {{GoTitle .Name}} contains constants for the {{.Name}} table\<newline>'',
     ''var {{GoTitle .Name}} = struct{\<newline>'',
     [CHR 0x09] @ ''TableName string\<newline>'',
     [CHR 0x09] @ ''{{- range .Columns}}\<newline>'',
     [CHR 0x09] @ ''{{GoTitle .Name}} string // {{.Type}}\<newline>'',
     [CHR 0x09] @ ''{{- end}}\<newline>'',
     ''}{\"{{.Name}}\",{{range .Columns}}\"{{.Name}}\",{{end}} }\<newline>'',
     ''{{end}}\<newline>'']"

text \<open>
  What the process can change: the files, standard output, and standard error (a list of
  what was written to it, a logged line or a dump).
\<close>

record world =
  files :: "string \<rightharpoonup> string"
  stdout :: string
  stderr :: "string list"

datatype exit = Returned | Exited nat | Panicked panic

text \<open>The command line after \<^verbatim>\<open>flag.Parse\<close>; \<open>arg0\<close> is \<^verbatim>\<open>os.Args[0]\<close>.\<close>

record flags =
  arg0 :: string
  pkg :: string
  matchTables :: string
  outputFile :: string
  templateFile :: string
  args :: "string list"

text \<open>
  The collaborators of \<^verbatim>\<open>main\<close>, none of them code of this repository: the Unicode
  case table, reading a file,
  the SQL parser, the template engine (\<open>'t\<close> is a parsed template), the formatter,
  creating the output file, and the library functions entered in the template's function
  map. An \<^verbatim>\<open>error\<close> is its message; \<open>os_Create\<close> answers with the error, if any.
\<close>

type_synonym FuncMap = "string \<rightharpoonup> (string \<Rightarrow> string)"

record 't env =
  unicode_CaseRanges :: "rune \<Rightarrow> rune"
  strings_Title :: "string \<Rightarrow> string"
  strings_ToUpper :: "string \<Rightarrow> string"
  strings_ToLower :: "string \<Rightarrow> string"
  ioutil_ReadFile :: "string \<Rightarrow> string + string"
  pg_query_Parse :: "string \<Rightarrow> string + node list"
  template_Parse :: "FuncMap \<Rightarrow> string \<Rightarrow> string + 't"
  template_Execute :: "'t \<Rightarrow> Data \<Rightarrow> string + string"
  format_Source :: "string \<Rightarrow> string + string"
  os_Create :: "string \<Rightarrow> string option"

definition log_Print :: "log \<Rightarrow> world \<Rightarrow> world" where
  "log_Print lg w = w\<lparr>stderr := stderr w @ lg\<rparr>"

text \<open>\<^verbatim>\<open>log.Fatalf\<close>: the line, then \<^verbatim>\<open>os.Exit(1)\<close>.\<close>

definition log_Fatalf :: "string \<Rightarrow> world \<Rightarrow> exit \<times> world" where
  "log_Fatalf msg w = (Exited 1, log_Print [msg] w)"

definition fmap :: "'t env \<Rightarrow> FuncMap" where
  "fmap e =
     [''Title'' \<mapsto> strings_Title e,
      ''GoTitle'' \<mapsto> goTitleCase (unicode_CaseRanges e),
      ''ToUpper'' \<mapsto> strings_ToUpper e,
      ''ToLower'' \<mapsto> strings_ToLower e]"

text \<open>
  Lines 123 to 161: from the template data to the output. The program writes nothing
  before the formatter has accepted the output of the template; it then creates the
  output file, if one is named, and copies the formatted text. It drops the error of
  that copy, and the copy is taken to succeed here.
\<close>

definition generate :: "'t env \<Rightarrow> flags \<Rightarrow> Data \<Rightarrow> world \<Rightarrow> exit \<times> world" where
  "generate e fl data w =
    (case (if templateFile fl \<noteq> [] then ioutil_ReadFile e (templateFile fl) else Inr gencodeTmpl) of
       Inl err \<Rightarrow> log_Fatalf (''unable to read template file: '' @ err) w
     | Inr templateText \<Rightarrow>
    (case template_Parse e (fmap e) templateText of
       Inl err \<Rightarrow> log_Fatalf (''unable to parse template: '' @ err) w
     | Inr tmpl \<Rightarrow>
    (case template_Execute e tmpl data of
       Inl err \<Rightarrow> log_Fatalf (''error executing template: '' @ err) w
     | Inr buf \<Rightarrow>
    (case format_Source e buf of
       Inl err \<Rightarrow> log_Fatalf (''generated bad code: '' @ err) (log_Print [buf] w)
     | Inr formatted \<Rightarrow>
         if outputFile fl \<noteq> [] then
           (case os_Create e (outputFile fl) of
              Some err \<Rightarrow> log_Fatalf (''error creating output file: '' @ err) w
            | None \<Rightarrow> (Returned, w\<lparr>files := (files w)(outputFile fl \<mapsto> formatted)\<rparr>))
         else (Returned, w\<lparr>stdout := stdout w @ formatted\<rparr>)))))"

text \<open>
  \<^verbatim>\<open>main\<close>. With other than one argument it prints the usage (the list of the flags
  that \<^verbatim>\<open>flag.PrintDefaults\<close> adds is left out) and leaves with status 1; a panic of the
  extraction ends the run with the run-time error on standard error.
\<close>

definition main :: "'t env \<Rightarrow> flags \<Rightarrow> world \<Rightarrow> exit \<times> world" where
  "main e fl w =
    (if length (args fl) \<noteq> 1
     then (Exited 1, log_Print [''Usage: '' @ arg0 fl @ '' [OPTION]... [SQLFILE]''] w)
     else
       let sqlFile = args fl ! 0 in
       case ioutil_ReadFile e sqlFile of
         Inl err \<Rightarrow> log_Fatalf (''unable to open '' @ sqlFile @ '': '' @ err) w
       | Inr fc \<Rightarrow>
      (case pg_query_Parse e fc of
         Inl err \<Rightarrow> log_Fatalf (''error parsing sql: '' @ err) w
       | Inr statements \<Rightarrow>
      (case extractTables statements (matchTables fl) of
         (Inl p, lg) \<Rightarrow>
           (Panicked p,
            log_Print (lg @ [''panic: runtime error: invalid memory address or nil pointer dereference'']) w)
       | (Inr dataTables, lg) \<Rightarrow>
           generate e fl \<lparr>Package = pkg fl, Tables = dataTables\<rparr> (log_Print lg w))))"

section \<open>What the claims speak of\<close>

subsection \<open>Title-cased identifiers\<close>

text \<open>The code points of a string, as a \<^verbatim>\<open>range\<close> loop yields them, and back to bytes.\<close>

definition runes :: "string \<Rightarrow> rune list" where
  "runes s = map snd (rangeString s)"

definition encodeRunes :: "rune list \<Rightarrow> string" where
  "encodeRunes rs = concat (map encodeRune rs)"

text \<open>A code point that UTF-8 encodes: at most \<^verbatim>\<open>utf8.MaxRune\<close> and not a surrogate.\<close>

definition validRune :: "rune \<Rightarrow> bool" where
  "validRune r = (r \<le> 0x10FFFF \<and> \<not> (0xD800 \<le> r \<and> r \<le> 0xDFFF))"

definition isSeparator :: "rune \<Rightarrow> bool" where
  "isSeparator c = (c = 0x20 \<or> c = 0x5F)"

text \<open>
  The title-cased identifier in the words of the specification: the first character and
  every character right after a space or an underscore is mapped by
  \<^verbatim>\<open>unicode.ToTitle\<close>, every other character is kept, and the underscores are removed.
\<close>

definition titleCased :: "(rune \<Rightarrow> rune) \<Rightarrow> rune list \<Rightarrow> rune list" where
  "titleCased caseTable rs =
     filter (\<lambda>c. c \<noteq> 0x5F)
       (map (\<lambda>k. if k = 0 \<or> isSeparator (rs ! (k - 1))
                 then unicode_ToTitle caseTable (rs ! k) else rs ! k)
          [0..<length rs])"

text \<open>
  What is asked of the Unicode case table: the title case of a character beyond ASCII is
  neither the space nor the underscore.
\<close>

definition caseTable_ok :: "(rune \<Rightarrow> rune) \<Rightarrow> bool" where
  "caseTable_ok caseTable = (\<forall>r. 0x7F < r \<longrightarrow> \<not> isSeparator (caseTable r))"

text \<open>A part of the Unicode case table: the small letters of Latin-1 but \<open>0xFF\<close>.\<close>

definition latin1_caseTable :: "rune \<Rightarrow> rune" where
  "latin1_caseTable r = (if 0xE0 \<le> r \<and> r \<le> 0xFE \<and> r \<noteq> 0xF7 then r - 0x20 else r)"

text \<open>
  The same identifier by recursion, for the proofs: \<open>up\<close> says whether the next character
  is to be mapped.
\<close>

fun titleRunes :: "(rune \<Rightarrow> rune) \<Rightarrow> bool \<Rightarrow> rune list \<Rightarrow> rune list" where
  "titleRunes t up [] = []"
| "titleRunes t up (c # cs) =
     (let c' = (if up then unicode_ToTitle t c else c)
      in (if c' = 0x5F then [] else [c']) @ titleRunes t (isSeparator c') cs)"

subsection \<open>Type names\<close>

text \<open>The texts of the string nodes of a list, the other nodes, and joining with spaces.\<close>

fun stringParts :: "node list \<Rightarrow> string list" where
  "stringParts [] = []"
| "stringParts (Node_String str # nod) = str # stringParts nod"
| "stringParts (n # nod) = stringParts nod"

fun otherNodes :: "node list \<Rightarrow> node list" where
  "otherNodes [] = []"
| "otherNodes (Node_String str # nod) = otherNodes nod"
| "otherNodes (n # nod) = n # otherNodes nod"

fun join_space :: "string list \<Rightarrow> string" where
  "join_space [] = []"
| "join_space [x] = x"
| "join_space (x # y # ys) = x @ '' '' @ join_space (y # ys)"

subsection \<open>Statements, tables and the allowlist\<close>

text \<open>
  A table-creation statement is a \<^verbatim>\<open>CreateStmt\<close>, bare or in a \<^verbatim>\<open>RawStmt\<close>;
  \<open>createStmts\<close> are those of a sequence of statements, in its order.
\<close>

fun createStmt_of :: "node \<Rightarrow> node create_stmt option" where
  "createStmt_of (Node_CreateStmt s) = Some s"
| "createStmt_of (Node_RawStmt (Node_CreateStmt s)) = Some s"
| "createStmt_of n = None"

definition createStmts :: "node list \<Rightarrow> node create_stmt list" where
  "createStmts statements = List.map_filter createStmt_of statements"

fun isRawStmt :: "node \<Rightarrow> bool" where
  "isRawStmt (Node_RawStmt n) = True"
| "isRawStmt n = False"

definition unexpected :: "node \<Rightarrow> bool" where
  "unexpected n = (createStmt_of n = None \<and> \<not> isRawStmt n)"

definition relname_of :: "node create_stmt \<Rightarrow> string option" where
  "relname_of s = (case Relation s of None \<Rightarrow> None | Some relation \<Rightarrow> Relname relation)"

text \<open>The column definitions among the elements of a table, in their order.\<close>

fun columnDefs :: "node list \<Rightarrow> node column_def list" where
  "columnDefs [] = []"
| "columnDefs (Node_ColumnDef cd # items) = cd # columnDefs items"
| "columnDefs (n # items) = columnDefs items"

definition column_ok :: "node column_def \<Rightarrow> bool" where
  "column_ok cd = (Colname cd \<noteq> None \<and> typeName cd \<noteq> None)"

definition column_of :: "node column_def \<Rightarrow> Column" where
  "column_of cd =
     \<lparr>Column.Name = the (Colname cd), Type = fst (toString (Names (the (typeName cd))))\<rparr>"

definition table_of :: "node create_stmt \<Rightarrow> Table" where
  "table_of s =
     \<lparr>Table.Name = the (relname_of s), Columns = map column_of (columnDefs (TableElts s))\<rparr>"

text \<open>
  The allowlist of a value of the flag \<^verbatim>\<open>-tables\<close>, and the statements it selects: all
  when it is empty, else those whose relation name is a member.
\<close>

definition allowlist :: "string \<Rightarrow> string set" where
  "allowlist mt = (if mt = [] then {} else set (strings_Split mt (CHR '','')))"

definition selected :: "string set \<Rightarrow> node create_stmt \<Rightarrow> bool" where
  "selected allow s = (allow = {} \<or> (\<exists>tableName \<in> allow. relname_of s = Some tableName))"

text \<open>
  No \<^verbatim>\<open>nil\<close> where the third loop dereferences: the relation name of every table-creation
  statement, and the name and the type of every column of a selected one.
\<close>

definition stmt_ok :: "string set \<Rightarrow> node create_stmt \<Rightarrow> bool" where
  "stmt_ok allow s =
     (relname_of s \<noteq> None \<and> (selected allow s \<longrightarrow> list_all column_ok (columnDefs (TableElts s))))"

fun join_comma :: "string list \<Rightarrow> string" where
  "join_comma [] = []"
| "join_comma [x] = x"
| "join_comma (x # y # ys) = x @ '','' @ join_comma (y # ys)"

subsection \<open>An example schema\<close>

text \<open>
  The statements the parser gives for
  \<^verbatim>\<open>
  CREATE TABLE users (id int, PRIMARY KEY (id), email text);
  INSERT INTO users VALUES (1, 'a');
  CREATE TABLE posts (title text);
  CREATE TABLE users (id int, PRIMARY KEY (id), email text);\<close>
  with a node that is no statement put third.
\<close>

definition users_stmt :: "node create_stmt" where
  "users_stmt =
     CreateStmt (Some (RangeVar (Some ''users'')))
       [Node_ColumnDef (ColumnDef (Some ''id'')
          (Some (TypeName [Node_String ''pg_catalog'', Node_String ''int4'']))),
        Node_Other ''pg_query.Constraint'',
        Node_ColumnDef (ColumnDef (Some ''email'') (Some (TypeName [Node_String ''text''])))]"

definition posts_stmt :: "node create_stmt" where
  "posts_stmt =
     CreateStmt (Some (RangeVar (Some ''posts'')))
       [Node_ColumnDef (ColumnDef (Some ''title'') (Some (TypeName [Node_String ''text''])))]"

definition schema_statements :: "node list" where
  "schema_statements =
     [Node_RawStmt (Node_CreateStmt users_stmt),
      Node_RawStmt (Node_Other ''pg_query.InsertStmt''),
      Node_Other ''pg_query.A_Const'',
      Node_RawStmt (Node_CreateStmt posts_stmt),
      Node_RawStmt (Node_CreateStmt users_stmt)]"

definition users_table :: Table where
  "users_table =
     \<lparr>Table.Name = ''users'',
      Columns = [\<lparr>Column.Name = ''id'', Type = ''pg_catalog int4''\<rparr>,
                 \<lparr>Column.Name = ''email'', Type = ''text''\<rparr>]\<rparr>"

definition posts_table :: Table where
  "posts_table =
     \<lparr>Table.Name = ''posts'', Columns = [\<lparr>Column.Name = ''title'', Type = ''text''\<rparr>]\<rparr>"

subsection \<open>Example runs\<close>

text \<open>
  A stand-in for the collaborators, to run \<^verbatim>\<open>main\<close> on: every SQL file parses to the
  example schema, a template parses to itself unless it is \<^verbatim>\<open>{{range\<close>, executing a
  template gives its text, and the formatter accepts, unchanged, what starts with
  \<^verbatim>\<open>package\<close> and nothing else. The file \<^verbatim>\<open>/\<close> cannot be created.
\<close>

definition run_env :: "string env" where
  "run_env =
     \<lparr>unicode_CaseRanges = id,
      strings_Title = id,
      strings_ToUpper = id,
      strings_ToLower = id,
      ioutil_ReadFile = (\<lambda>path.
        if path = ''schema.sql'' then Inr ''CREATE TABLE users (id int);''
        else if path = ''broken.tmpl'' then Inr ''{{range''
        else if path = ''text.tmpl'' then Inr ''not a Go file''
        else if path = ''go.tmpl'' then Inr ''package p''
        else Inl (''open '' @ path @ '': no such file or directory'')),
      pg_query_Parse = (\<lambda>sql. Inr schema_statements),
      template_Parse = (\<lambda>funcs text.
        if text = ''{{range'' then Inl ''template: :1: unclosed action'' else Inr text),
      template_Execute = (\<lambda>tmpl data. Inr tmpl),
      format_Source = (\<lambda>src.
        if take 7 src = ''package'' then Inr src else Inl ''1:1: expected package''),
      os_Create = (\<lambda>path. if path = ''/'' then Some ''open /: is a directory'' else None)\<rparr>"

definition run_flags :: "string \<Rightarrow> string \<Rightarrow> flags" where
  "run_flags template output =
     \<lparr>arg0 = ''pgsqlconsts'', pkg = ''models'', matchTables = [], outputFile = output,
      templateFile = template, args = [''schema.sql'']\<rparr>"

definition run_world :: world where
  "run_world = \<lparr>files = [''out.go'' \<mapsto> ''package old''], stdout = [], stderr = []\<rparr>"

definition schema_log :: log where
  "schema_log = [''unexpected statement type pg_query.A_Const'']"

subsection \<open>The built-in template, executed\<close>

text \<open>
  What \<^verbatim>\<open>text/template\<close> writes for \<open>gencodeTmpl\<close>, read off the template: text is
  copied, \<^verbatim>\<open>{{.Field}}\<close> writes the field, \<^verbatim>\<open>{{GoTitle .Name}}\<close> writes the result of the
  function, \<^verbatim>\<open>{{range}}\<close> to \<^verbatim>\<open>{{end}}\<close> writes its body for each element in order, and
  \<^verbatim>\<open>{{-\<close> removes the white space before it. \<open>column_field\<close> and \<open>column_value\<close> are the
  bodies of the two loops over the columns and \<open>table_block\<close> is the body of the loop over
  the tables.
\<close>

definition column_field :: "(string \<Rightarrow> string) \<Rightarrow> Column \<Rightarrow> string" where
  "column_field GoTitle c =
     ''\<newline>'' @ [CHR 0x09] @ GoTitle (Column.Name c) @ '' string // '' @ Type c"

definition column_value :: "Column \<Rightarrow> string" where
  "column_value c = ''\"'' @ Column.Name c @ ''\",''"

definition table_block :: "(string \<Rightarrow> string) \<Rightarrow> Table \<Rightarrow> string" where
  "table_block GoTitle t =
     ''\<newline>// '' @ GoTitle (Table.Name t) @ '' contains constants for the ''
       @ Table.Name t @ '' table\<newline>''
     @ ''var '' @ GoTitle (Table.Name t) @ '' = struct{\<newline>''
     @ [CHR 0x09] @ ''TableName string''
     @ concat (map (column_field GoTitle) (Columns t))
     @ ''\<newline>}{\"'' @ Table.Name t @ ''\",'' @ concat (map column_value (Columns t))
     @ '' }\<newline>''"

definition execute_gencodeTmpl :: "(string \<Rightarrow> string) \<Rightarrow> Data \<Rightarrow> string" where
  "execute_gencodeTmpl GoTitle data =
     ''// Code generated by pgsqlconsts; DO NOT EDIT.\<newline>''
     @ ''package '' @ Package data @ ''\<newline>''
     @ ''\<newline>''
     @ concat (map (table_block GoTitle) (Tables data))
     @ ''\<newline>''"

section \<open>Lemmas\<close>

subsection \<open>UTF-8: decoding what was encoded\<close>

lemma decode_encode1:
  assumes "r < 0x80"
  shows "decodeRune (encodeRune r @ rest) = (r, 1)"
  using assms by (simp add: decodeRune_def encodeRune_def Let_def)

lemma add_mod_cancel: "a mod n = 0 \<Longrightarrow> q < n \<Longrightarrow> (a + q) mod n = q" for a n q :: nat
  by (metis add_0 mod_add_left_eq mod_less)

lemma digits64: "r = 64 * (r div 64) + r mod 64" "r mod 64 < 64" for r :: nat
  by simp_all

lemma div4096: "r div 4096 = (r div 64) div 64" for r :: nat
  by (simp add: div_mult2_eq [symmetric])

lemma div262144: "r div 262144 = (r div 4096) div 64" for r :: nat
  by (simp add: div_mult2_eq [symmetric])

lemma digits3: "r = 4096 * (r div 4096) + 64 * ((r div 64) mod 64) + r mod 64" for r :: nat
proof -
  have "r div 64 = 64 * (r div 4096) + (r div 64) mod 64"
    unfolding div4096 by simp
  then show ?thesis
    using digits64(1) [of r] by linarith
qed

lemma digits4:
  "r = 262144 * (r div 262144) + 4096 * ((r div 4096) mod 64) + 64 * ((r div 64) mod 64) + r mod 64"
  for r :: nat
proof -
  have "r div 4096 = 64 * (r div 262144) + (r div 4096) mod 64"
    unfolding div262144 by simp
  then show ?thesis
    using digits3 [of r] by linarith
qed

lemma of_char_of_byte: "n < 256 \<Longrightarrow> (of_char (char_of (n::nat)) :: nat) = n"
  by simp

lemma decode2:
  assumes "0xC2 \<le> b0" "b0 \<le> 0xDF" "0x80 \<le> b1" "b1 \<le> 0xBF"
  shows "decodeRune (char_of (b0::nat) # char_of (b1::nat) # rest) = ((b0 mod 32) * 64 + b1 mod 64, 2)"
  using assms by (simp add: decodeRune_def Let_def of_char_of_byte)

lemma decode_encode2:
  assumes "0x80 \<le> r" "r \<le> 0x7FF"
  shows "decodeRune (encodeRune r @ rest) = (r, 2)"
proof -
  define q where "q = r div 64"
  define m where "m = r mod 64"
  have r: "r = 64 * q + m" and m: "m < 64"
    by (simp_all add: q_def m_def)
  have q: "2 \<le> q" "q \<le> 31"
    using assms r m by linarith+
  have enc: "encodeRune r = [char_of (0xC0 + q), char_of (0x80 + m)]"
    using assms by (simp add: encodeRune_def q_def m_def)
  have "(0xC0 + q) mod 32 = q" "(0x80 + m) mod 64 = m"
    using q m by (simp_all add: add_mod_cancel)
  then show ?thesis
    unfolding enc using decode2 [of "0xC0 + q" "0x80 + m" rest] q m r by simp
qed

lemma decode3:
  assumes "0xE0 \<le> b0" "b0 \<le> 0xEF" "0x80 \<le> b1" "b1 \<le> 0xBF" "0x80 \<le> b2" "b2 \<le> 0xBF"
    "b0 = 0xE0 \<longrightarrow> 0xA0 \<le> b1" "b0 = 0xED \<longrightarrow> b1 \<le> 0x9F"
  shows "decodeRune (char_of (b0::nat) # char_of (b1::nat) # char_of (b2::nat) # rest)
    = ((b0 mod 16) * 4096 + (b1 mod 64) * 64 + b2 mod 64, 3)"
  using assms by (auto simp: decodeRune_def Let_def of_char_of_byte)

lemma decode4:
  assumes "0xF0 \<le> b0" "b0 \<le> 0xF4" "0x80 \<le> b1" "b1 \<le> 0xBF" "0x80 \<le> b2" "b2 \<le> 0xBF"
    "0x80 \<le> b3" "b3 \<le> 0xBF" "b0 = 0xF0 \<longrightarrow> 0x90 \<le> b1" "b0 = 0xF4 \<longrightarrow> b1 \<le> 0x8F"
  shows "decodeRune (char_of (b0::nat) # char_of (b1::nat) # char_of (b2::nat) # char_of (b3::nat) # rest)
    = ((b0 mod 8) * 262144 + (b1 mod 64) * 4096 + (b2 mod 64) * 64 + b3 mod 64, 4)"
  using assms by (auto simp: decodeRune_def Let_def of_char_of_byte)

lemma decode_encode3:
  assumes "0x800 \<le> r" "r \<le> 0xFFFF" "\<not> (0xD800 \<le> r \<and> r \<le> 0xDFFF)"
  shows "decodeRune (encodeRune r @ rest) = (r, 3)"
proof -
  define q1 where "q1 = r div 4096"
  define q2 where "q2 = (r div 64) mod 64"
  define m where "m = r mod 64"
  have r: "r = 4096 * q1 + 64 * q2 + m" and m: "m < 64" and q2: "q2 < 64"
    using digits3 [of r] by (simp_all add: q1_def q2_def m_def)
  have q1: "q1 \<le> 15" "q1 = 0 \<longrightarrow> 32 \<le> q2" "q1 = 13 \<longrightarrow> q2 \<le> 31"
    using assms r m q2 by linarith+
  have enc: "encodeRune r = [char_of (0xE0 + q1), char_of (0x80 + q2), char_of (0x80 + m)]"
    using assms by (auto simp: encodeRune_def q1_def q2_def m_def)
  have "(0xE0 + q1) mod 16 = q1" "(0x80 + q2) mod 64 = q2" "(0x80 + m) mod 64 = m"
    using q1 q2 m by (simp_all add: add_mod_cancel)
  then show ?thesis
    unfolding enc using decode3 [of "0xE0 + q1" "0x80 + q2" "0x80 + m" rest] q1 q2 m r by simp
qed

lemma decode_encode4:
  assumes "0x10000 \<le> r" "r \<le> 0x10FFFF"
  shows "decodeRune (encodeRune r @ rest) = (r, 4)"
proof -
  define q0 where "q0 = r div 262144"
  define q1 where "q1 = (r div 4096) mod 64"
  define q2 where "q2 = (r div 64) mod 64"
  define m where "m = r mod 64"
  have r: "r = 262144 * q0 + 4096 * q1 + 64 * q2 + m" and m: "m < 64" and q2: "q2 < 64"
    and q1: "q1 < 64"
    using digits4 [of r] by (simp_all add: q0_def q1_def q2_def m_def)
  have q0: "q0 \<le> 4" "q0 = 0 \<longrightarrow> 16 \<le> q1" "q0 = 4 \<longrightarrow> q1 \<le> 15"
    using assms r m q2 q1 by linarith+
  have enc: "encodeRune r
      = [char_of (0xF0 + q0), char_of (0x80 + q1), char_of (0x80 + q2), char_of (0x80 + m)]"
    using assms by (simp add: encodeRune_def q0_def q1_def q2_def m_def)
  have "(0xF0 + q0) mod 8 = q0" "(0x80 + q1) mod 64 = q1" "(0x80 + q2) mod 64 = q2"
    "(0x80 + m) mod 64 = m"
    using q0 q1 q2 m by (simp_all add: add_mod_cancel)
  then show ?thesis
    unfolding enc
    using decode4 [of "0xF0 + q0" "0x80 + q1" "0x80 + q2" "0x80 + m" rest] q0 q1 q2 m r by simp
qed

lemma length_encodeRune: "1 \<le> length (encodeRune r)"
  by (simp add: encodeRune_def)

lemma decode_encode:
  assumes "validRune r"
  shows "decodeRune (encodeRune r @ rest) = (r, length (encodeRune r))"
proof -
  consider "r < 0x80" | "0x80 \<le> r" "r \<le> 0x7FF" | "0x800 \<le> r" "r \<le> 0xFFFF" | "0x10000 \<le> r"
    by linarith
  then show ?thesis
  proof cases
    case 1
    then show ?thesis using decode_encode1 [of r rest] by (simp add: encodeRune_def)
  next
    case 2
    then show ?thesis using decode_encode2 [of r rest] by (simp add: encodeRune_def)
  next
    case 3
    then show ?thesis using decode_encode3 [of r rest] assms
      by (simp add: encodeRune_def validRune_def)
  next
    case 4
    then show ?thesis using decode_encode4 [of r rest] assms
      by (simp add: encodeRune_def validRune_def)
  qed
qed

lemma rangeFrom_encodeRunes:
  "list_all validRune rs \<Longrightarrow> map snd (rangeFrom i (encodeRunes rs)) = rs"
proof (induction rs arbitrary: i)
  case Nil
  then show ?case by (simp add: encodeRunes_def)
next
  case (Cons r rs)
  obtain b bs where e: "encodeRune r = b # bs"
    using length_encodeRune [of r] by (cases "encodeRune r") auto
  have d: "decodeRune (b # bs @ encodeRunes rs) = (r, length (b # bs))"
    using decode_encode [of r "encodeRunes rs"] Cons.prems by (simp add: e)
  have "encodeRunes (r # rs) = b # bs @ encodeRunes rs"
    by (simp add: encodeRunes_def e)
  then show ?case
    using Cons.IH [of "i + length (b # bs)"] Cons.prems d by simp
qed

lemma runes_encodeRunes: "list_all validRune rs \<Longrightarrow> runes (encodeRunes rs) = rs"
  by (simp add: runes_def rangeString_def rangeFrom_encodeRunes)

lemma underscore_char_of: "n mod 256 \<noteq> 0x5F \<Longrightarrow> char_of (n :: nat) \<noteq> CHR ''_''"
proof
  assume n: "n mod 256 \<noteq> 0x5F" and "char_of n = CHR ''_''"
  then have "(of_char (char_of n) :: nat) = of_char (CHR ''_'')" by simp
  then show False using n by simp
qed

lemma underscore_high_byte: "0x80 \<le> n \<Longrightarrow> n < 0x100 \<Longrightarrow> char_of (n :: nat) \<noteq> CHR ''_''"
  by (rule underscore_char_of) simp

lemma underscore_high_bytes:
  "list_all (\<lambda>n. 0x80 \<le> n \<and> n < 0x100) ns \<Longrightarrow> CHR ''_'' \<notin> set (map char_of (ns :: nat list))"
  by (induction ns) (auto dest: underscore_high_byte)

lemma underscore_encodeRune: "r \<noteq> 0x5F \<Longrightarrow> CHR ''_'' \<notin> set (encodeRune r)"
proof -
  assume r: "r \<noteq> 0x5F"
  have m: "0x80 + k mod 64 < 0x100" for k :: nat
  proof -
    have "k mod 64 < 64" by simp
    then show ?thesis by linarith
  qed
  consider "r < 0x80" | "0x80 \<le> r" "r \<le> 0x7FF"
    | "0x800 \<le> r" "0x10FFFF < r \<or> (0xD800 \<le> r \<and> r \<le> 0xDFFF)"
    | "0x800 \<le> r" "r \<le> 0xFFFF" "\<not> (0x10FFFF < r \<or> (0xD800 \<le> r \<and> r \<le> 0xDFFF))"
    | "0x10000 \<le> r" "r \<le> 0x10FFFF"
    by linarith
  then show ?thesis
  proof cases
    case 1
    then have "char_of r \<noteq> CHR ''_''" using r by (intro underscore_char_of) simp
    then show ?thesis using 1 by (simp add: encodeRune_def)
  next
    case 2
    have e: "encodeRune r = map char_of [0xC0 + r div 64, 0x80 + r mod 64]"
      using 2 by (simp add: encodeRune_def)
    have "r div 64 \<le> 31"
      using div_le_mono [OF 2(2), of 64] by simp
    then show ?thesis
      unfolding e using m [of r] by (intro underscore_high_bytes) simp
  next
    case 3
    have e: "encodeRune r = map char_of [0xEF, 0xBF, 0xBD :: nat]"
      using 3 by (auto simp: encodeRune_def)
    show ?thesis
      unfolding e by (intro underscore_high_bytes) simp
  next
    case 4
    have e: "encodeRune r
        = map char_of [0xE0 + r div 4096, 0x80 + (r div 64) mod 64, 0x80 + r mod 64]"
      using 4 by (auto simp: encodeRune_def)
    have "r div 4096 \<le> 15"
      using div_le_mono [OF 4(2), of 4096] by simp
    then show ?thesis
      unfolding e using m [of r] m [of "r div 64"] by (intro underscore_high_bytes) simp
  next
    case 5
    have e: "encodeRune r
        = map char_of [0xF0 + r div 262144, 0x80 + (r div 4096) mod 64,
            0x80 + (r div 64) mod 64, 0x80 + r mod 64]"
      using 5 by (auto simp: encodeRune_def)
    have "r div 262144 \<le> 4"
      using div_le_mono [OF 5(2), of 262144] by simp
    then show ?thesis
      unfolding e using m [of r] m [of "r div 64"] m [of "r div 4096"]
      by (intro underscore_high_bytes) simp
  qed
qed

lemma underscore_encodeRunes: "0x5F \<notin> set rs \<Longrightarrow> CHR ''_'' \<notin> set (encodeRunes rs)"
  by (induction rs) (auto simp: encodeRunes_def underscore_encodeRune)

lemma encodeRune_space: "encodeRune 0x20 = '' ''"
  by code_simp

subsection \<open>The loop of \<^verbatim>\<open>goTitleCase\<close>\<close>

lemma decodeRune_width: "1 \<le> snd (decodeRune (b # bs))"
  by (simp add: decodeRune_def Let_def)

lemma rangeFrom_index: "(j, c) \<in> set (rangeFrom i s) \<Longrightarrow> i \<le> j"
proof (induction i s rule: rangeFrom.induct)
  case (1 i)
  then show ?case by simp
next
  case (2 i b bs)
  then show ?case by fastforce
qed

lemma goTitleCase_step_simp:
  "goTitleCase_step t (tn, buf) (i, c) =
    (let c' = (if i = 0 \<or> tn then unicode_ToTitle t c else c)
     in if c' = 0x20 then (True, buf @ encodeRune c')
        else if c' = 0x5F then (True, buf)
        else (\<not> (i = 0 \<or> tn) \<and> tn, buf @ encodeRune c'))"
  by (simp add: goTitleCase_step_def Let_def)

lemma foldl_step_tail:
  "\<forall>ic \<in> set ics. fst ic \<noteq> 0 \<Longrightarrow>
   snd (foldl (goTitleCase_step t) (tn, buf) ics)
     = buf @ encodeRunes (titleRunes t tn (map snd ics))"
proof (induction ics arbitrary: tn buf)
  case Nil
  then show ?case by (simp add: encodeRunes_def)
next
  case (Cons ic ics)
  then show ?case
    by (cases ic) (auto simp: goTitleCase_step_simp Let_def isSeparator_def encodeRunes_def)
qed

lemma foldl_step_rangeString:
  "snd (foldl (goTitleCase_step t) (False, []) (rangeString s))
     = encodeRunes (titleRunes t True (runes s))"
proof (cases s)
  case Nil
  then show ?thesis by (simp add: rangeString_def runes_def encodeRunes_def)
next
  case (Cons b bs)
  let ?w = "snd (decodeRune (b # bs))"
  let ?rest = "rangeFrom (0 + ?w) (drop ?w (b # bs))"
  have "\<forall>ic \<in> set ?rest. fst ic \<noteq> 0"
    using rangeFrom_index [of _ _ "0 + ?w" "drop ?w (b # bs)"] decodeRune_width [of b bs]
    by fastforce
  from foldl_step_tail [OF this] show ?thesis
    unfolding Cons rangeString_def runes_def
    by (simp add: goTitleCase_step_simp Let_def isSeparator_def encodeRunes_def)
qed

lemma ToTitle_separator:
  "caseTable_ok t \<Longrightarrow> isSeparator (unicode_ToTitle t c) = isSeparator c"
  by (auto simp: caseTable_ok_def unicode_ToTitle_def isSeparator_def)

lemma titleRunes_positional:
  "caseTable_ok t \<Longrightarrow>
   titleRunes t up rs =
     filter (\<lambda>c. c \<noteq> 0x5F)
       (map (\<lambda>k. if (k = 0 \<and> up) \<or> (0 < k \<and> isSeparator (rs ! (k - 1)))
                 then unicode_ToTitle t (rs ! k) else rs ! k)
          [0..<length rs])"
proof (induction rs arbitrary: up)
  case Nil
  then show ?case by simp
next
  case (Cons c cs)
  have upt: "[0..<length (c # cs)] = 0 # map Suc [0..<length cs]"
    by (simp add: upt_conv_Cons map_Suc_upt del: upt_Suc)
  have nth: "isSeparator ((c' # cs) ! x)
      = ((x = 0 \<and> isSeparator c') \<or> (0 < x \<and> isSeparator (cs ! (x - 1))))" for x c'
    by (cases x) auto
  define c' where "c' = (if up then unicode_ToTitle t c else c)"
  have sep: "isSeparator c' = isSeparator c"
    by (simp add: c'_def ToTitle_separator [OF Cons.prems])
  have "titleRunes t up (c # cs) = (if c' = 0x5F then [] else [c']) @ titleRunes t (isSeparator c) cs"
    by (simp add: c'_def [symmetric] Let_def sep)
  also have "titleRunes t (isSeparator c) cs =
     filter (\<lambda>c. c \<noteq> 0x5F)
       (map (\<lambda>k. if (k = 0 \<and> isSeparator c) \<or> (0 < k \<and> isSeparator (cs ! (k - 1)))
                 then unicode_ToTitle t (cs ! k) else cs ! k)
          [0..<length cs])"
    by (rule Cons.IH [OF Cons.prems])
  finally show ?case
    unfolding upt
    by (simp add: c'_def o_def nth cong: if_cong)
qed

lemma titleRunes_titleCased: "caseTable_ok t \<Longrightarrow> titleRunes t True rs = titleCased t rs"
proof -
  assume ok: "caseTable_ok t"
  have "(\<lambda>k. if (k = 0 \<and> True) \<or> (0 < k \<and> isSeparator (rs ! (k - 1)))
                 then unicode_ToTitle t (rs ! k) else rs ! k)
      = (\<lambda>k. if k = 0 \<or> isSeparator (rs ! (k - 1))
                 then unicode_ToTitle t (rs ! k) else rs ! k)"
    by auto
  then show ?thesis
    unfolding titleCased_def titleRunes_positional [OF ok] by simp
qed

lemma underscore_titleRunes: "0x5F \<notin> set (titleRunes t up rs)"
  by (induction rs arbitrary: up) (auto simp: Let_def)

lemma goTitleCase_runes:
  "caseTable_ok t \<Longrightarrow> s \<noteq> ''id'' \<Longrightarrow> goTitleCase t s = encodeRunes (titleCased t (runes s))"
  by (simp add: goTitleCase_def foldl_step_rangeString titleRunes_titleCased)

lemma underscore_goTitleCase: "CHR ''_'' \<notin> set (goTitleCase t s)"
  by (simp add: goTitleCase_def foldl_step_rangeString underscore_encodeRunes underscore_titleRunes)

lemma separators_only:
  "set s \<subseteq> {CHR '' '', CHR ''_''} \<Longrightarrow>
   snd (foldl (goTitleCase_step t) (tn, buf) (rangeFrom i s)) = buf @ filter (\<lambda>c. c = CHR '' '') s"
proof (induction s arbitrary: i tn buf)
  case Nil
  then show ?case by simp
next
  case (Cons b bs)
  have d: "decodeRune (CHR '' '' # bs) = (0x20, 1)" "decodeRune (CHR ''_'' # bs) = (0x5F, 1)"
    by (simp_all add: decodeRune_def)
  have t: "unicode_ToTitle t 0x20 = 0x20" "unicode_ToTitle t 0x5F = 0x5F"
    by (simp_all add: unicode_ToTitle_def)
  from Cons.prems have "b = CHR '' '' \<or> b = CHR ''_''" and bs: "set bs \<subseteq> {CHR '' '', CHR ''_''}"
    by simp_all
  then show ?case
    by (auto simp: d t goTitleCase_step_simp encodeRune_space Cons.IH [OF bs])
qed

lemma goTitleCase_separators:
  "set s \<subseteq> {CHR '' '', CHR ''_''} \<Longrightarrow> goTitleCase t s = filter (\<lambda>c. c = CHR '' '') s"
  by (auto simp: goTitleCase_def rangeString_def separators_only)

lemma caseTable_ok_id: "caseTable_ok id"
  by (simp add: caseTable_ok_def isSeparator_def)

lemma caseTable_ok_latin1: "caseTable_ok latin1_caseTable"
  by (auto simp: caseTable_ok_def isSeparator_def latin1_caseTable_def)

subsection \<open>\<^verbatim>\<open>toString\<close>\<close>

lemma join_space_Cons: "ys \<noteq> [] \<Longrightarrow> join_space (x # ys) = x @ '' '' @ join_space ys"
  by (cases ys) auto

lemma foldl_toString_step:
  "foldl toString_step (buf, lg) nod =
     ((if buf = [] then join_space (dropWhile (\<lambda>str. str = []) (stringParts nod))
       else buf @ concat (map (\<lambda>str. CHR '' '' # str) (stringParts nod))),
      lg @ map (\<lambda>n. ''unhandled node type: '' @ goType n) (otherNodes nod))"
proof (induction nod arbitrary: buf lg)
  case Nil
  then show ?case by simp
next
  case (Cons n nod)
  show ?case
  proof (cases n)
    case (Node_String str)
    have j: "join_space (x # ys) = x @ concat (map (\<lambda>str. CHR '' '' # str) ys)" for x ys
      by (induction ys arbitrary: x) (auto simp: join_space_Cons)
    show ?thesis
      by (simp add: Node_String Cons.IH j)
  qed (simp_all add: Cons.IH)
qed

lemma dropWhile_id: "[] \<notin> set xs \<Longrightarrow> dropWhile (\<lambda>str. str = []) xs = xs"
  by (cases xs) auto

lemma hd_join_space: "xs \<noteq> [] \<Longrightarrow> hd xs \<noteq> [] \<Longrightarrow> hd (join_space xs) = hd (hd xs)"
  by (cases xs rule: join_space.cases) auto

lemma join_space_nonempty: "xs \<noteq> [] \<Longrightarrow> last xs \<noteq> [] \<Longrightarrow> join_space xs \<noteq> []"
  by (induction xs rule: join_space.induct) auto

lemma last_join_space: "xs \<noteq> [] \<Longrightarrow> last xs \<noteq> [] \<Longrightarrow> last (join_space xs) = last (last xs)"
proof (induction xs rule: join_space.induct)
  case (3 x y ys)
  then show ?case using join_space_nonempty [of "y # ys"] by simp
qed simp_all

lemma fst_toString:
  "fst (toString nod) = join_space (dropWhile (\<lambda>str. str = []) (stringParts nod))"
  by (simp add: toString_def foldl_toString_step)

lemma snd_toString:
  "snd (toString nod) = map (\<lambda>n. ''unhandled node type: '' @ goType n) (otherNodes nod)"
  by (simp add: toString_def foldl_toString_step)

text \<open>
  The space is written when the buffer is not empty, so an empty text at the head leaves
  no space behind and an empty text at the end has one before it.
\<close>

lemma toString_empty_text:
  "fst (toString [Node_String [], Node_String ''int4'']) = ''int4''
   \<and> fst (toString [Node_String ''int4'', Node_String []]) = ''int4 ''"
  by (simp add: toString_def)

subsection \<open>The three loops of the extraction\<close>

lemma createStmts_append: "createStmts (xs @ ys) = createStmts xs @ createStmts ys"
  by (simp add: createStmts_def List.map_filter_def)

lemma createStmts_Cons:
  "createStmts (n # ys) = (case createStmt_of n of None \<Rightarrow> [] | Some s \<Rightarrow> [s]) @ createStmts ys"
  by (simp add: createStmts_def List.map_filter_def split: option.splits)

lemma length_createStmts:
  "length (createStmts statements) = length (filter (\<lambda>n. createStmt_of n \<noteq> None) statements)"
  by (simp add: createStmts_def List.map_filter_def)

lemma foldl_createTables_step:
  "foldl createTables_step (cts, lg) statements =
     (cts @ createStmts statements,
      lg @ map (\<lambda>n. ''unexpected statement type '' @ goType n) (filter unexpected statements))"
proof (induction statements arbitrary: cts lg)
  case Nil
  then show ?case by (simp add: createStmts_def List.map_filter_simps)
next
  case (Cons n statements)
  show ?case
    by (cases n rule: createStmt_of.cases)
      (simp_all add: Cons.IH createStmts_Cons unexpected_def)
qed

lemma createTables_loop_eq:
  "createTables_loop statements =
     (createStmts statements,
      map (\<lambda>n. ''unexpected statement type '' @ goType n) (filter unexpected statements))"
  by (simp add: createTables_loop_def foldl_createTables_step)

lemma createTables_step_other:
  "createStmt_of n = None \<Longrightarrow>
   createTables_step (cts, lg) n =
     (cts, if isRawStmt n then lg else lg @ [''unexpected statement type '' @ goType n])"
  by (cases n rule: createStmt_of.cases) simp_all

lemma fst_columns_loop:
  "fst (columns_loop items (cols, lg)) =
     (if list_all column_ok (columnDefs items)
      then Inr (cols @ map column_of (columnDefs items)) else Inl NilDereference)"
proof (induction items "(cols, lg)" arbitrary: cols lg rule: columns_loop.induct)
  case (1 columns lg)
  then show ?case by simp
next
  case (2 cd items columns lg)
  then show ?case
    by (auto simp: column_ok_def column_of_def split: option.splits)
qed simp_all

lemma strings_Split_from_nonempty: "strings_Split_from cur s sep \<noteq> []"
  by (induction s arbitrary: cur) auto

lemma dom_foldl_upd: "dom (foldl (\<lambda>tables table. tables(table \<mapsto> True)) m xs) = dom m \<union> set xs"
  by (induction xs arbitrary: m) auto

lemma foldl_upd_apply:
  "foldl (\<lambda>tables table. tables(table \<mapsto> True)) m xs k =
     (if k \<in> set xs then Some True else m k)"
  by (induction xs arbitrary: m) auto

lemma dom_tables_of: "dom (tables_of mt) = allowlist mt"
  by (simp add: tables_of_def allowlist_def dom_foldl_upd)

lemma index_map_tables_of: "index_map (tables_of mt) k = (k \<in> allowlist mt)"
  by (simp add: tables_of_def allowlist_def index_map_def foldl_upd_apply)

lemma finite_allowlist: "finite (allowlist mt)"
  by (simp add: allowlist_def)

lemma allowlist_empty_iff: "allowlist mt = {} \<longleftrightarrow> mt = []"
  by (simp add: allowlist_def strings_Split_def strings_Split_from_nonempty)

lemma len_map_tables_of: "0 < len_map (tables_of mt) \<longleftrightarrow> allowlist mt \<noteq> {}"
  by (simp add: len_map_def dom_tables_of card_gt_0_iff finite_allowlist)

lemma skip_iff:
  "relname_of s = Some tableName \<Longrightarrow>
   (0 < len_map (tables_of mt) \<and> \<not> index_map (tables_of mt) tableName)
     = (\<not> selected (allowlist mt) s)"
  by (auto simp: len_map_tables_of index_map_tables_of selected_def)

lemma fst_tables_loop:
  "fst (tables_loop (tables_of mt) cts (acc, lg)) =
     (if list_all (stmt_ok (allowlist mt)) cts
      then Inr (acc @ map table_of (filter (selected (allowlist mt)) cts))
      else Inl NilDereference)"
proof (induction cts arbitrary: acc lg)
  case Nil
  then show ?case by simp
next
  case (Cons s cts)
  show ?case
  proof (cases "relname_of s")
    case None
    then show ?thesis
      by (auto simp: relname_of_def stmt_ok_def split: option.splits)
  next
    case (Some tableName)
    then obtain relation where r: "Relation s = Some relation" "Relname relation = Some tableName"
      by (auto simp: relname_of_def split: option.splits)
    show ?thesis
    proof (cases "selected (allowlist mt) s")
      case False
      then show ?thesis
        using skip_iff [OF Some, of mt] r Some
        by (simp add: Cons.IH stmt_ok_def)
    next
      case True
      obtain res lg' where c: "columns_loop (TableElts s) ([], lg) = (res, lg')"
        by (cases "columns_loop (TableElts s) ([], lg)")
      have res: "res = (if list_all column_ok (columnDefs (TableElts s))
          then Inr (map column_of (columnDefs (TableElts s))) else Inl NilDereference)"
        using fst_columns_loop [of "TableElts s" "[]" lg] c by simp
      show ?thesis
        using skip_iff [OF Some, of mt] r Some True c res
        by (simp add: Cons.IH stmt_ok_def table_of_def)
    qed
  qed
qed

lemma fst_extractTables:
  "fst (extractTables statements mt) =
     (if list_all (stmt_ok (allowlist mt)) (createStmts statements)
      then Inr (map table_of (filter (selected (allowlist mt)) (createStmts statements)))
      else Inl NilDereference)"
  by (simp add: extractTables_def createTables_loop_eq fst_tables_loop)

lemma selected_member:
  "allow \<noteq> {} \<Longrightarrow> relname_of s \<noteq> None \<Longrightarrow> selected allow s = (the (relname_of s) \<in> allow)"
  by (auto simp: selected_def)

subsection \<open>\<^verbatim>\<open>strings.Split\<close>\<close>

lemma join_comma_Cons: "ys \<noteq> [] \<Longrightarrow> join_comma (x # ys) = x @ '','' @ join_comma ys"
  by (cases ys) auto

lemma join_comma_Split_from: "join_comma (strings_Split_from cur s (CHR '','')) = cur @ s"
  by (induction s arbitrary: cur) (auto simp: join_comma_Cons strings_Split_from_nonempty)

lemma Split_from_no_sep:
  "sep \<notin> set cur \<Longrightarrow> \<forall>seg \<in> set (strings_Split_from cur s sep). sep \<notin> set seg"
proof (induction s arbitrary: cur)
  case Nil
  then show ?case by simp
next
  case (Cons c cs)
  show ?case
  proof (cases "c = sep")
    case True
    then show ?thesis using Cons.IH [of "[]"] Cons.prems by simp
  next
    case False
    then show ?thesis using Cons.IH [of "cur @ [c]"] Cons.prems by simp
  qed
qed

lemma Split_from_no_sep_id: "sep \<notin> set s \<Longrightarrow> strings_Split_from cur s sep = [cur @ s]"
  by (induction s arbitrary: cur) auto

lemma Split_from_only_sep:
  "set s \<subseteq> {sep} \<Longrightarrow> set (strings_Split_from cur s sep) \<subseteq> {cur, []}"
  by (induction s arbitrary: cur) auto

lemma Split_only_sep:
  "s \<noteq> [] \<Longrightarrow> set s \<subseteq> {sep} \<Longrightarrow> set (strings_Split s sep) = {[]}"
proof -
  assume s: "s \<noteq> []" "set s \<subseteq> {sep}"
  then obtain cs where c: "s = sep # cs" "set cs \<subseteq> {sep}" by (cases s) auto
  have "set (strings_Split_from [] cs sep) \<subseteq> {[]}"
    using Split_from_only_sep [OF c(2), of "[]"] by simp
  then show ?thesis
    using strings_Split_from_nonempty [of "[]" cs sep]
    by (auto simp: strings_Split_def c)
qed

subsection \<open>The example schema\<close>

lemma createStmts_schema: "createStmts schema_statements = [users_stmt, posts_stmt, users_stmt]"
  by (simp add: schema_statements_def createStmts_Cons createStmts_def List.map_filter_simps)

lemma relname_of_examples: "relname_of users_stmt = Some ''users''" "relname_of posts_stmt = Some ''posts''"
  by (simp_all add: relname_of_def users_stmt_def posts_stmt_def)

lemma column_ok_examples:
  "list_all column_ok (columnDefs (TableElts users_stmt))"
  "list_all column_ok (columnDefs (TableElts posts_stmt))"
  by (simp_all add: users_stmt_def posts_stmt_def column_ok_def)

lemma stmt_ok_examples: "stmt_ok allow users_stmt" "stmt_ok allow posts_stmt"
  by (simp_all add: stmt_ok_def relname_of_examples column_ok_examples)

lemma table_of_examples: "table_of users_stmt = users_table" "table_of posts_stmt = posts_table"
  by (simp_all add: table_of_def column_of_def relname_of_def users_stmt_def posts_stmt_def
        users_table_def posts_table_def toString_def)

lemma allowlist_users: "allowlist ''users'' = {''users''}"
  by (simp add: allowlist_def strings_Split_def)

subsection \<open>The rest of \<^verbatim>\<open>main\<close>\<close>

lemma log_Print_output [simp]:
  "files (log_Print lg w) = files w" "stdout (log_Print lg w) = stdout w"
  "stderr (log_Print lg w) = stderr w @ lg"
  by (simp_all add: log_Print_def)

lemma generate_cases:
  "(\<exists>msg. generate e fl data w = (Exited 1, log_Print [msg] w))
   \<or> (\<exists>buf msg. generate e fl data w = (Exited 1, log_Print [msg] (log_Print [buf] w)))
   \<or> (\<exists>templateText tmpl buf formatted.
        (if templateFile fl \<noteq> [] then ioutil_ReadFile e (templateFile fl) else Inr gencodeTmpl)
          = Inr templateText
        \<and> template_Parse e (fmap e) templateText = Inr tmpl
        \<and> template_Execute e tmpl data = Inr buf
        \<and> format_Source e buf = Inr formatted
        \<and> generate e fl data w =
            (Returned,
             if outputFile fl \<noteq> [] then w\<lparr>files := (files w)(outputFile fl \<mapsto> formatted)\<rparr>
             else w\<lparr>stdout := stdout w @ formatted\<rparr>))"
  unfolding generate_def log_Fatalf_def
  by (auto split: sum.splits option.splits simp del: fun_upd_apply)

lemma generate_not_Returned:
  "fst (generate e fl data w) \<noteq> Returned \<Longrightarrow>
   files (snd (generate e fl data w)) = files w \<and> stdout (snd (generate e fl data w)) = stdout w"
  using generate_cases [of e fl data w] by auto

lemma generate_exit:
  "fst (generate e fl data w) = Returned \<or> fst (generate e fl data w) = Exited 1"
  using generate_cases [of e fl data w] by auto

lemma main_not_Returned:
  "fst (main e fl w) \<noteq> Returned \<Longrightarrow>
   files (snd (main e fl w)) = files w \<and> stdout (snd (main e fl w)) = stdout w"
proof -
  assume n: "fst (main e fl w) \<noteq> Returned"
  show ?thesis
  proof (cases "length (args fl) \<noteq> 1")
    case True
    then show ?thesis by (simp add: main_def)
  next
    case False
    note a = this
    show ?thesis
    proof (cases "ioutil_ReadFile e (args fl ! 0)")
      case (Inl err)
      then show ?thesis using a by (simp add: main_def log_Fatalf_def)
    next
      case (Inr fc)
      note r = this
      show ?thesis
      proof (cases "pg_query_Parse e fc")
        case (Inl err)
        then show ?thesis using a r by (simp add: main_def log_Fatalf_def)
      next
        case (Inr statements)
        note p = this
        obtain res lg where x: "extractTables statements (matchTables fl) = (res, lg)"
          by (cases "extractTables statements (matchTables fl)")
        show ?thesis
        proof (cases res)
          case (Inl pn)
          then show ?thesis using a r p x by (simp add: main_def)
        next
          case (Inr dataTables)
          then have m: "main e fl w =
              generate e fl \<lparr>Package = pkg fl, Tables = dataTables\<rparr> (log_Print lg w)"
            using a r p x by (simp add: main_def)
          show ?thesis
            using n generate_not_Returned
              [of e fl "\<lparr>Package = pkg fl, Tables = dataTables\<rparr>" "log_Print lg w"]
            unfolding m by simp
        qed
      qed
    qed
  qed
qed

lemma extractTables_schema:
  "extractTables schema_statements [] = (Inr [users_table, posts_table, users_table], schema_log)"
  by (simp add: extractTables_def createTables_loop_def schema_statements_def tables_of_def
        len_map_def users_stmt_def posts_stmt_def toString_def users_table_def posts_table_def
        schema_log_def)

lemma main_run:
  "main run_env (run_flags template output) run_world =
     generate run_env (run_flags template output)
       \<lparr>Package = ''models'', Tables = [users_table, posts_table, users_table]\<rparr>
       (log_Print schema_log run_world)"
  by (simp add: main_def Let_def run_env_def run_flags_def extractTables_schema)

subsection \<open>The built-in template on examples\<close>

lemma goTitleCase_names:
  "goTitleCase t ''users'' = ''Users''" "goTitleCase t ''email'' = ''Email''"
  by code_simp+

lemma execute_gencodeTmpl_users:
  "execute_gencodeTmpl (goTitleCase t)
     \<lparr>Package = ''models'',
      Tables = [\<lparr>Table.Name = ''users'',
                 Columns = [\<lparr>Column.Name = ''id'', Type = ''int4''\<rparr>,
                            \<lparr>Column.Name = ''email'', Type = ''text''\<rparr>]\<rparr>]\<rparr>
   = concat
      [''// Code generated by pgsqlconsts; DO NOT EDIT.\<newline>'',
       ''package models\<newline>'',
       ''\<newline>'',
       ''\<newline>'',
       ''// Users contains constants for the users table\<newline>'',
       ''var Users = struct{\<newline>'',
       [CHR 0x09] @ ''TableName string\<newline>'',
       [CHR 0x09] @ ''ID string // int4\<newline>'',
       [CHR 0x09] @ ''Email string // text\<newline>'',
       ''}{\"users\",\"id\",\"email\", }\<newline>'',
       ''\<newline>'']"
  by (simp add: execute_gencodeTmpl_def table_block_def column_field_def column_value_def
        goTitleCase_names) (simp add: goTitleCase_def)

lemma execute_gencodeTmpl_no_tables:
  "execute_gencodeTmpl GoTitle \<lparr>Package = p, Tables = []\<rparr>
   = ''// Code generated by pgsqlconsts; DO NOT EDIT.\<newline>package '' @ p @ ''\<newline>\<newline>\<newline>''"
  by (simp add: execute_gencodeTmpl_def)

text \<open>
  When the template engine does on the built-in template what \<open>execute_gencodeTmpl\<close> says
  and the formatter accepts that text, \<^verbatim>\<open>main\<close> writes the formatted text.
\<close>

lemma generate_gencodeTmpl:
  assumes "templateFile fl = []"
    and "template_Parse e (fmap e) gencodeTmpl = Inr tmpl"
    and "template_Execute e tmpl data
          = Inr (execute_gencodeTmpl (goTitleCase (unicode_CaseRanges e)) data)"
    and "format_Source e (execute_gencodeTmpl (goTitleCase (unicode_CaseRanges e)) data)
          = Inr formatted"
    and "outputFile fl = []"
  shows "generate e fl data w = (Returned, w\<lparr>stdout := stdout w @ formatted\<rparr>)"
  using assms by (simp add: generate_def)

section \<open>The claims\<close>

text \<open>
  C1, as the code has it. For every string \<open>s\<close> other than \<^verbatim>\<open>"id"\<close>, \<^verbatim>\<open>goTitleCase\<close> maps
  the first character and every character right after a space or an underscore by
  \<^verbatim>\<open>unicode.ToTitle\<close>, keeps every other character (the spaces among them) and removes
  the underscores: its result is the UTF-8 encoding of \<open>titleCased\<close> of the characters of
  \<open>s\<close>. No result holds an underscore. \<^verbatim>\<open>"id"\<close> becomes \<^verbatim>\<open>"ID"\<close> and \<^verbatim>\<open>"first name"\<close>
  becomes \<^verbatim>\<open>"First Name"\<close>; \<^verbatim>\<open>"user_id"\<close> becomes \<^verbatim>\<open>"UserId"\<close>, since only the string that
  is \<^verbatim>\<open>"id"\<close> as a whole is special. The characters of \<open>s\<close> are the code points a
  \<^verbatim>\<open>range\<close> loop reads; the case table is any that maps no character beyond ASCII to a
  space or an underscore, as Unicode's does.
\<close>

theorem goTitleCase_title_cases:
  assumes "caseTable_ok caseTable"
  shows "(s \<noteq> ''id'' \<longrightarrow> goTitleCase caseTable s = encodeRunes (titleCased caseTable (runes s)))
    \<and> CHR ''_'' \<notin> set (goTitleCase caseTable s)
    \<and> goTitleCase caseTable ''id'' = ''ID''
    \<and> goTitleCase caseTable ''user_id'' = ''UserId''
    \<and> goTitleCase caseTable ''first name'' = ''First Name''"
proof -
  have 1: "s \<noteq> ''id'' \<longrightarrow> goTitleCase caseTable s = encodeRunes (titleCased caseTable (runes s))"
    using goTitleCase_runes [OF assms] by simp
  have 2: "goTitleCase caseTable ''id'' = ''ID''"
    by (simp add: goTitleCase_def)
  have 3: "goTitleCase caseTable ''user_id'' = ''UserId''"
    by code_simp
  have 4: "goTitleCase caseTable ''first name'' = ''First Name''"
    by code_simp
  show ?thesis
    using 1 2 3 4 underscore_goTitleCase [of caseTable s] by simp
qed

theorem goTitleCase_title_cases_witness:
  "caseTable_ok id
   \<and> runes ''created_at by'' = [0x63, 0x72, 0x65, 0x61, 0x74, 0x65, 0x64, 0x5F, 0x61, 0x74, 0x20, 0x62, 0x79]
   \<and> goTitleCase id ''created_at by'' = encodeRunes (titleCased id (runes ''created_at by''))
   \<and> goTitleCase id ''created_at by'' = ''CreatedAt By''
   \<and> CHR ''_'' \<notin> set (goTitleCase id ''created_at by'')"
proof -
  have r: "runes ''created_at by'' = [0x63, 0x72, 0x65, 0x61, 0x74, 0x65, 0x64, 0x5F, 0x61, 0x74, 0x20, 0x62, 0x79]"
    by code_simp
  have v: "goTitleCase id ''created_at by'' = ''CreatedAt By''"
    by code_simp
  have n: "''created_at by'' \<noteq> ''id''"
    by simp
  note t = goTitleCase_title_cases [OF caseTable_ok_id, of "''created_at by''"]
  have a: "goTitleCase id ''created_at by'' = encodeRunes (titleCased id (runes ''created_at by''))"
    using t n by blast
  have b: "CHR ''_'' \<notin> set (goTitleCase id ''created_at by'')"
    using t by blast
  show ?thesis
    using caseTable_ok_id r v a b by (intro conjI)
qed

theorem goTitleCase_user_id_counterexample:
  "goTitleCase id ''user_id'' = ''UserId'' \<and> goTitleCase id ''user_id'' \<noteq> ''UserID''"
proof -
  have "goTitleCase id ''user_id'' = ''UserId''"
    by code_simp
  then show ?thesis by simp
qed

text \<open>
  C7. For every sequence of type-name part nodes whose string nodes have a text that is not
  empty (a PostgreSQL name is never of length zero), \<^verbatim>\<open>toString\<close> is the texts of exactly
  the string nodes, in their order, joined with single spaces: it starts as the first
  text starts and ends as the last one ends, so no space is put before or after. Every
  other node is skipped with one logged line, and the column that holds the type name is
  built whatever the nodes are.
\<close>

theorem toString_joins:
  assumes "[] \<notin> set (stringParts nod)"
  shows "fst (toString nod) = join_space (stringParts nod)
   \<and> (stringParts nod \<noteq> [] \<longrightarrow>
        hd (fst (toString nod)) = hd (hd (stringParts nod))
        \<and> last (fst (toString nod)) = last (last (stringParts nod)))
   \<and> snd (toString nod) = map (\<lambda>n. ''unhandled node type: '' @ goType n) (otherNodes nod)
   \<and> columns_loop [Node_ColumnDef (ColumnDef (Some colname) (Some (TypeName nod)))] ([], lg)
       = (Inr [\<lparr>Column.Name = colname, Type = fst (toString nod)\<rparr>], lg @ snd (toString nod))"
proof -
  have 3: "fst (toString nod) = join_space (stringParts nod)"
    using assms by (simp add: fst_toString dropWhile_id)
  have 4: "hd (fst (toString nod)) = hd (hd (stringParts nod))"
    "last (fst (toString nod)) = last (last (stringParts nod))"
    if "stringParts nod \<noteq> []"
  proof -
    have "hd (stringParts nod) \<noteq> []" "last (stringParts nod) \<noteq> []"
      using that assms hd_in_set [of "stringParts nod"] last_in_set [of "stringParts nod"]
      by metis+
    then show "hd (fst (toString nod)) = hd (hd (stringParts nod))"
      "last (fst (toString nod)) = last (last (stringParts nod))"
      using that 3 hd_join_space [of "stringParts nod"] last_join_space [of "stringParts nod"]
      by simp_all
  qed
  have 5: "columns_loop [Node_ColumnDef (ColumnDef (Some colname) (Some (TypeName nod)))] ([], lg)
       = (Inr [\<lparr>Column.Name = colname, Type = fst (toString nod)\<rparr>], lg @ snd (toString nod))"
    by simp
  show ?thesis
    using snd_toString [of nod] 3 4 5 by blast
qed

theorem toString_joins_witness:
  "stringParts [Node_String ''pg_catalog'', Node_Other ''pg_query.A_Star'', Node_String ''varchar'']
     = [''pg_catalog'', ''varchar'']
   \<and> toString [Node_String ''pg_catalog'', Node_Other ''pg_query.A_Star'', Node_String ''varchar'']
     = (''pg_catalog varchar'', [''unhandled node type: pg_query.A_Star''])
   \<and> hd (fst (toString [Node_String ''pg_catalog'', Node_Other ''pg_query.A_Star'', Node_String ''varchar''])) = CHR ''p''
   \<and> last (fst (toString [Node_String ''pg_catalog'', Node_Other ''pg_query.A_Star'', Node_String ''varchar''])) = CHR ''r''"
proof -
  have n: "[] \<notin> set (stringParts
      [Node_String ''pg_catalog'', Node_Other ''pg_query.A_Star'', Node_String ''varchar''])"
    by simp
  show ?thesis
    using toString_joins
      [OF n]
    by (simp add: prod_eq_iff)
qed

text \<open>
  C8, as the code has it. \<^verbatim>\<open>goTitleCase\<close> of the empty string is the empty string. Of a
  string of spaces and underscores only it is the spaces of the string: the underscores
  are removed and the spaces are kept, so the result is empty exactly when the string
  has no space. A character of several bytes is mapped as one character: on the UTF-8
  encoding of code points the result is the UTF-8 encoding of their title-cased sequence.
\<close>

theorem goTitleCase_edge_cases:
  "goTitleCase caseTable [] = []
   \<and> (set s \<subseteq> {CHR '' '', CHR ''_''} \<longrightarrow>
        goTitleCase caseTable s = filter (\<lambda>c. c = CHR '' '') s
        \<and> (goTitleCase caseTable s = [] \<longleftrightarrow> CHR '' '' \<notin> set s))
   \<and> (caseTable_ok caseTable \<and> list_all validRune rs \<and> encodeRunes rs \<noteq> ''id'' \<longrightarrow>
        goTitleCase caseTable (encodeRunes rs) = encodeRunes (titleCased caseTable rs))"
proof -
  have 1: "goTitleCase caseTable [] = []"
    by (simp add: goTitleCase_def rangeString_def)
  have 2: "goTitleCase caseTable s = filter (\<lambda>c. c = CHR '' '') s"
    if "set s \<subseteq> {CHR '' '', CHR ''_''}"
    using that by (rule goTitleCase_separators)
  have 3: "goTitleCase caseTable s = [] \<longleftrightarrow> CHR '' '' \<notin> set s"
    if "set s \<subseteq> {CHR '' '', CHR ''_''}"
    unfolding 2 [OF that] by (auto simp: filter_empty_conv)
  have 4: "goTitleCase caseTable (encodeRunes rs) = encodeRunes (titleCased caseTable rs)"
    if "caseTable_ok caseTable" "list_all validRune rs" "encodeRunes rs \<noteq> ''id''"
    using that goTitleCase_runes [of caseTable "encodeRunes rs"] runes_encodeRunes [of rs]
    by simp
  show ?thesis
    using 1 2 3 4 by blast
qed

theorem goTitleCase_edge_cases_witness:
  "set ''_ _'' \<subseteq> {CHR '' '', CHR ''_''}
   \<and> goTitleCase latin1_caseTable ''_ _'' = '' ''
   \<and> caseTable_ok latin1_caseTable
   \<and> list_all validRune [0xE9, 0x5F, 0xE0, 0x20AC]
   \<and> encodeRunes [0xE9, 0x5F, 0xE0, 0x20AC]
        = [CHR 0xC3, CHR 0xA9, CHR ''_'', CHR 0xC3, CHR 0xA0, CHR 0xE2, CHR 0x82, CHR 0xAC]
   \<and> titleCased latin1_caseTable [0xE9, 0x5F, 0xE0, 0x20AC] = [0xC9, 0xC0, 0x20AC]
   \<and> goTitleCase latin1_caseTable
        [CHR 0xC3, CHR 0xA9, CHR ''_'', CHR 0xC3, CHR 0xA0, CHR 0xE2, CHR 0x82, CHR 0xAC]
        = [CHR 0xC3, CHR 0x89, CHR 0xC3, CHR 0x80, CHR 0xE2, CHR 0x82, CHR 0xAC]"
proof -
  have s: "set ''_ _'' \<subseteq> {CHR '' '', CHR ''_''}"
    by simp
  have v: "list_all validRune [0xE9, 0x5F, 0xE0, 0x20AC]"
    by (simp add: validRune_def)
  have e: "encodeRunes [0xE9, 0x5F, 0xE0, 0x20AC]
        = [CHR 0xC3, CHR 0xA9, CHR ''_'', CHR 0xC3, CHR 0xA0, CHR 0xE2, CHR 0x82, CHR 0xAC]"
    by (simp add: encodeRunes_def encodeRune_def char_of_eq_iff)
  have t: "titleCased latin1_caseTable [0xE9, 0x5F, 0xE0, 0x20AC] = [0xC9, 0xC0, 0x20AC]"
    by (simp add: titleCased_def latin1_caseTable_def unicode_ToTitle_def isSeparator_def upt_rec)
  have e': "encodeRunes [0xC9, 0xC0, 0x20AC]
        = [CHR 0xC3, CHR 0x89, CHR 0xC3, CHR 0x80, CHR 0xE2, CHR 0x82, CHR 0xAC]"
    by (simp add: encodeRunes_def encodeRune_def char_of_eq_iff)
  have n: "encodeRunes [0xE9, 0x5F, 0xE0, 0x20AC] \<noteq> ''id''"
    unfolding e by simp
  show ?thesis
    using goTitleCase_edge_cases [of latin1_caseTable "''_ _''" "[0xE9, 0x5F, 0xE0, 0x20AC]"]
      s v n caseTable_ok_latin1
    unfolding t e e' by simp
qed

theorem goTitleCase_spaces_counterexample:
  "set ''_ _'' \<subseteq> {CHR '' '', CHR ''_''} \<and> goTitleCase id ''_ _'' = '' ''
   \<and> goTitleCase id '' '' = '' '' \<and> goTitleCase id '' '' \<noteq> []"
  by (simp add: goTitleCase_separators)

text \<open>
  The number of tables. When no pointer that the third loop dereferences is \<^verbatim>\<open>nil\<close> (the
  relation name of every table-creation statement, the name and the type of every column
  of a selected one), the extraction returns, with at most as many tables as there are
  table-creation statements and exactly as many when the allowlist is empty; when the
  allowlist is not empty, the tables are those of the statements whose relation name is
  a member of it, one whole table for each and nothing for the others.
\<close>

lemma extractTables_count:
  assumes "list_all (stmt_ok (allowlist mt)) (createStmts statements)"
  shows "\<exists>dataTables. fst (extractTables statements mt) = Inr dataTables
    \<and> length dataTables \<le> length (filter (\<lambda>n. createStmt_of n \<noteq> None) statements)
    \<and> (allowlist mt = {} \<longrightarrow>
          length dataTables = length (filter (\<lambda>n. createStmt_of n \<noteq> None) statements))
    \<and> (allowlist mt \<noteq> {} \<longrightarrow>
          dataTables = map table_of
            (filter (\<lambda>s. the (relname_of s) \<in> allowlist mt) (createStmts statements)))
    \<and> dom (tables_of mt) = allowlist mt"
proof -
  let ?cts = "createStmts statements"
  let ?tables = "map table_of (filter (selected (allowlist mt)) ?cts)"
  have 1: "fst (extractTables statements mt) = Inr ?tables"
    using assms by (simp add: fst_extractTables)
  have len: "length (filter (\<lambda>n. createStmt_of n \<noteq> None) statements) = length ?cts"
    by (rule length_createStmts [symmetric])
  have 2: "length ?tables \<le> length (filter (\<lambda>n. createStmt_of n \<noteq> None) statements)"
    unfolding len by simp
  have 3: "length ?tables = length (filter (\<lambda>n. createStmt_of n \<noteq> None) statements)"
    if "allowlist mt = {}"
    unfolding len using that by (simp add: selected_def)
  have 4: "?tables = map table_of (filter (\<lambda>s. the (relname_of s) \<in> allowlist mt) ?cts)"
    if "allowlist mt \<noteq> {}"
  proof -
    have "filter (selected (allowlist mt)) ?cts
        = filter (\<lambda>s. the (relname_of s) \<in> allowlist mt) ?cts"
      using assms that
      by (intro filter_cong refl) (auto simp: list_all_iff stmt_ok_def selected_member)
    then show ?thesis by simp
  qed
  show ?thesis
    using 1 2 3 4 dom_tables_of [of mt] by blast
qed

lemma extractTables_count_example:
  "list_all (stmt_ok (allowlist ''users'')) (createStmts schema_statements)
   \<and> allowlist ''users'' = {''users''}
   \<and> length (filter (\<lambda>n. createStmt_of n \<noteq> None) schema_statements) = 3
   \<and> fst (extractTables schema_statements ''users'') = Inr [users_table, users_table]
   \<and> list_all (stmt_ok (allowlist [])) (createStmts schema_statements)
   \<and> allowlist [] = {}
   \<and> fst (extractTables schema_statements []) = Inr [users_table, posts_table, users_table]"
proof -
  have ok: "list_all (stmt_ok (allowlist mt)) (createStmts schema_statements)" for mt
    by (simp add: createStmts_schema stmt_ok_examples)
  have n: "length (filter (\<lambda>n. createStmt_of n \<noteq> None) schema_statements) = 3"
    unfolding length_createStmts [symmetric] by (simp add: createStmts_schema)
  have e: "allowlist [] = {}"
    by (simp add: allowlist_def)
  obtain ts where ts: "fst (extractTables schema_statements ''users'') = Inr ts"
    "ts = map table_of
           (filter (\<lambda>s. the (relname_of s) \<in> allowlist ''users'') (createStmts schema_statements))"
    using extractTables_count [OF ok, of "''users''"] by (auto simp: allowlist_users)
  have u: "fst (extractTables schema_statements ''users'') = Inr [users_table, users_table]"
    unfolding ts by (simp add: createStmts_schema allowlist_users relname_of_examples table_of_examples)
  have a: "fst (extractTables schema_statements []) = Inr [users_table, posts_table, users_table]"
    by (simp add: fst_extractTables stmt_ok_examples e selected_def createStmts_schema
          table_of_examples)
  show ?thesis
    using ok [of "''users''"] ok [of "[]"] allowlist_users n u e a by (intro conjI)
qed

text \<open>
  C2. For every sequence of parsed statements the extraction is to produce at most as
  many tables as there are table-creation statements, and exactly as many when the
  allowlist is empty. The program does not do so on a table-creation statement with a
  column that has no type name, as the parser gives for a typed table
  (\<^verbatim>\<open>CREATE TABLE t OF ty (c NOT NULL)\<close>): there is one table-creation statement and the
  allowlist is empty, and the third loop dereferences the \<^verbatim>\<open>nil\<close> pointer
  \<^verbatim>\<open>cd.TypeName\<close> and panics, so no table is produced. Beside it, an element that is no
  column definition is skipped by the test \<^verbatim>\<open>if !ok\<close>.
\<close>

theorem extractTables_typed_table_panics:
  "length (filter (\<lambda>n. createStmt_of n \<noteq> None)
      [Node_RawStmt (Node_CreateStmt
        (CreateStmt (Some (RangeVar (Some ''t''))) [Node_ColumnDef (ColumnDef (Some ''c'') None)]))])
     = 1
   \<and> len_map (tables_of []) = 0
   \<and> extractTables
       [Node_RawStmt (Node_CreateStmt
         (CreateStmt (Some (RangeVar (Some ''t''))) [Node_ColumnDef (ColumnDef (Some ''c'') None)]))]
       [] = (Inl NilDereference, [])
   \<and> extractTables
       [Node_RawStmt (Node_CreateStmt
         (CreateStmt (Some (RangeVar (Some ''t''))) [Node_Other ''pg_query.Constraint'']))]
       [] = (Inr [\<lparr>Table.Name = ''t'', Columns = []\<rparr>], [])"
  by (simp add: extractTables_def createTables_loop_def tables_of_def len_map_def)

text \<open>
  C3. Under the same condition, the tables of the extraction are those of the selected
  table-creation statements in the order of the statements, one for each and none
  merged, whatever their names; the columns of a table are those of the column
  definitions among the elements of its statement, in their order, every other element
  being skipped.
\<close>

theorem extractTables_order:
  assumes "list_all (stmt_ok (allowlist mt)) (createStmts statements)"
  shows "fst (extractTables statements mt) =
    Inr (map (\<lambda>s. \<lparr>Table.Name = the (relname_of s),
                    Columns = map (\<lambda>cd. \<lparr>Column.Name = the (Colname cd),
                                         Type = fst (toString (Names (the (typeName cd))))\<rparr>)
                                (columnDefs (TableElts s))\<rparr>)
           (filter (selected (allowlist mt)) (createStmts statements)))
    \<and> createStmts (statements @ others) = createStmts statements @ createStmts others
    \<and> columnDefs (elts @ elts') = columnDefs elts @ columnDefs elts'"
proof -
  have t: "table_of = (\<lambda>s. \<lparr>Table.Name = the (relname_of s),
                    Columns = map (\<lambda>cd. \<lparr>Column.Name = the (Colname cd),
                                         Type = fst (toString (Names (the (typeName cd))))\<rparr>)
                                (columnDefs (TableElts s))\<rparr>)"
    by (rule ext) (simp add: table_of_def column_of_def)
  have c: "columnDefs (elts @ elts') = columnDefs elts @ columnDefs elts'"
    by (induction elts rule: columnDefs.induct) simp_all
  show ?thesis
    using assms c by (simp add: fst_extractTables createStmts_append t [symmetric])
qed

theorem extractTables_order_witness:
  "list_all (stmt_ok (allowlist [])) (createStmts schema_statements)
   \<and> createStmts schema_statements = [users_stmt, posts_stmt, users_stmt]
   \<and> columnDefs (TableElts users_stmt)
      = [ColumnDef (Some ''id'') (Some (TypeName [Node_String ''pg_catalog'', Node_String ''int4''])),
         ColumnDef (Some ''email'') (Some (TypeName [Node_String ''text'']))]
   \<and> fst (extractTables schema_statements []) = Inr [users_table, posts_table, users_table]"
proof -
  have ok: "list_all (stmt_ok (allowlist [])) (createStmts schema_statements)"
    by (simp add: createStmts_schema stmt_ok_examples)
  have e: "allowlist [] = {}"
    by (simp add: allowlist_def)
  have cd: "columnDefs (TableElts users_stmt)
      = [ColumnDef (Some ''id'') (Some (TypeName [Node_String ''pg_catalog'', Node_String ''int4''])),
         ColumnDef (Some ''email'') (Some (TypeName [Node_String ''text'']))]"
    by (simp add: users_stmt_def)
  have "fst (extractTables schema_statements []) =
    Inr (map (\<lambda>s. \<lparr>Table.Name = the (relname_of s),
                    Columns = map (\<lambda>cd. \<lparr>Column.Name = the (Colname cd),
                                         Type = fst (toString (Names (the (typeName cd))))\<rparr>)
                                (columnDefs (TableElts s))\<rparr>)
           (filter (selected (allowlist [])) (createStmts schema_statements)))"
    using extractTables_order [OF ok, of "[]" "[]"] by (rule conjunct1)
  also have "\<dots> = Inr [users_table, posts_table, users_table]"
    by (simp add: createStmts_schema e selected_def relname_of_def users_stmt_def posts_stmt_def
          users_table_def posts_table_def toString_def)
  finally show ?thesis
    using ok createStmts_schema cd by (intro conjI)
qed

text \<open>
  Other statements. A statement that is neither a table-creation node nor a raw statement
  around one is skipped: the first loop keeps the statements it has collected, and the
  statements before and after it are collected, and the tables extracted, as if it were
  not there. The default of the outer type switch logs a line for it; the inner type
  switch, on the statement inside a raw statement, has no default.
\<close>

lemma other_statements_skipped:
  assumes "createStmt_of n = None"
  shows "createTables_step (cts, lg) n =
      (cts, if isRawStmt n then lg else lg @ [''unexpected statement type '' @ goType n])
    \<and> fst (createTables_loop (before @ n # after)) = fst (createTables_loop (before @ after))
    \<and> snd (createTables_loop (before @ n # after)) =
        snd (createTables_loop before)
          @ (if isRawStmt n then [] else [''unexpected statement type '' @ goType n])
          @ snd (createTables_loop after)
    \<and> fst (extractTables (before @ n # after) mt) = fst (extractTables (before @ after) mt)"
proof -
  have c: "createStmts (before @ n # after) = createStmts (before @ after)"
    using assms by (simp add: createStmts_append createStmts_Cons)
  have u: "unexpected n = (\<not> isRawStmt n)"
    using assms by (simp add: unexpected_def)
  show ?thesis
    using assms c u by (simp add: createTables_step_other createTables_loop_eq fst_extractTables)
qed

lemma other_statements_skipped_example:
  "createStmt_of (Node_Other ''pg_query.A_Const'') = None
   \<and> createStmt_of (Node_RawStmt (Node_Other ''pg_query.InsertStmt'')) = None
   \<and> createTables_loop schema_statements
      = ([users_stmt, posts_stmt, users_stmt], [''unexpected statement type pg_query.A_Const''])
   \<and> createTables_loop
        [Node_RawStmt (Node_CreateStmt users_stmt), Node_RawStmt (Node_CreateStmt posts_stmt),
         Node_RawStmt (Node_CreateStmt users_stmt)]
      = ([users_stmt, posts_stmt, users_stmt], [])"
proof -
  let ?b = "[Node_RawStmt (Node_CreateStmt users_stmt)]"
  let ?a = "[Node_RawStmt (Node_CreateStmt posts_stmt), Node_RawStmt (Node_CreateStmt users_stmt)]"
  let ?i = "Node_RawStmt (Node_Other ''pg_query.InsertStmt'')"
  let ?c = "Node_Other ''pg_query.A_Const''"
  have 1: "createStmt_of ?c = None" and 2: "createStmt_of ?i = None"
    by simp_all
  have 3: "createTables_loop (?b @ ?a) = ([users_stmt, posts_stmt, users_stmt], [])"
    by (simp add: createTables_loop_def)
  have 4: "createTables_loop (?b @ ?c # ?a)
      = ([users_stmt, posts_stmt, users_stmt], [''unexpected statement type pg_query.A_Const''])"
    using other_statements_skipped [OF 1, of _ _ ?b ?a] 3
    by (simp add: prod_eq_iff createTables_loop_def)
  have 5: "createTables_loop ((?b @ [?i]) @ ?c # ?a) = createTables_loop (?b @ ?c # ?a)"
    using other_statements_skipped [OF 2, of _ _ ?b "?c # ?a"]
    by (simp add: prod_eq_iff createTables_loop_def)
  show ?thesis
    using 1 2 3 4 5 by (simp add: schema_statements_def)
qed

text \<open>
  C4. Every statement that is neither a table-creation node nor a raw statement around
  one, an \<^verbatim>\<open>INSERT\<close> inside a raw statement among them, is to be skipped with a logged
  line, without raising and without effect on the other statements. The program logs no
  line for a raw statement around an \<^verbatim>\<open>INSERT\<close>, which is how the parser gives every
  \<^verbatim>\<open>INSERT\<close>: it is skipped and nothing is written, while the same statement not inside
  a raw statement is skipped with the line \<^verbatim>\<open>unexpected statement type\<close>.
\<close>

theorem raw_statement_not_logged:
  "createStmt_of (Node_RawStmt (Node_Other ''pg_query.InsertStmt'')) = None
   \<and> createTables_loop [Node_RawStmt (Node_Other ''pg_query.InsertStmt'')] = ([], [])
   \<and> createTables_loop [Node_Other ''pg_query.InsertStmt'']
      = ([], [''unexpected statement type pg_query.InsertStmt''])"
  by (simp add: createTables_loop_def)

text \<open>
  C9. For a value of the flag \<^verbatim>\<open>-tables\<close> that is not empty, the keys of the map
  \<^verbatim>\<open>tables\<close> are the substrings of the value between its commas, as they stand (joined
  with commas they give the value back, and none holds a comma); the map is not empty,
  and it answers \<^verbatim>\<open>true\<close> for exactly its keys. So a value of commas only gives the one
  key \<^verbatim>\<open>""\<close> and the extraction then yields no table, the relation names not being
  empty; and an entry with something before or after the table name does not select
  the table.
\<close>

theorem allowlist_exact:
  assumes "mt \<noteq> []"
  shows "dom (tables_of mt) = set (strings_Split mt (CHR '',''))
    \<and> join_comma (strings_Split mt (CHR '','')) = mt
    \<and> (\<forall>seg \<in> set (strings_Split mt (CHR '','')). CHR '','' \<notin> set seg)
    \<and> 0 < len_map (tables_of mt)
    \<and> index_map (tables_of mt) tableName = (tableName \<in> set (strings_Split mt (CHR '','')))
    \<and> (set mt \<subseteq> {CHR '',''} \<longrightarrow> dom (tables_of mt) = {[]})
    \<and> (set mt \<subseteq> {CHR '',''}
         \<and> list_all (\<lambda>s. relname_of s \<noteq> None \<and> relname_of s \<noteq> Some []) (createStmts statements)
         \<longrightarrow> extractTables statements mt = (Inr [], snd (createTables_loop statements)))
    \<and> (CHR '','' \<notin> set (pre @ tableName @ post) \<and> pre @ post \<noteq> []
         \<longrightarrow> \<not> index_map (tables_of (pre @ tableName @ post)) tableName)"
proof -
  have a: "allowlist mt = set (strings_Split mt (CHR '',''))"
    using assms by (simp add: allowlist_def)
  have 1: "dom (tables_of mt) = set (strings_Split mt (CHR '',''))"
    using dom_tables_of [of mt] a by simp
  have 2: "join_comma (strings_Split mt (CHR '','')) = mt"
    by (simp add: strings_Split_def join_comma_Split_from)
  have 3: "\<forall>seg \<in> set (strings_Split mt (CHR '','')). CHR '','' \<notin> set seg"
    using Split_from_no_sep [of "CHR '',''" "[]" mt] by (simp add: strings_Split_def)
  have 4: "0 < len_map (tables_of mt)"
    using assms by (simp add: len_map_tables_of allowlist_empty_iff)
  have 5: "index_map (tables_of mt) tableName = (tableName \<in> set (strings_Split mt (CHR '','')))"
    using index_map_tables_of [of mt tableName] a by simp
  have 6: "dom (tables_of mt) = {[]}" if "set mt \<subseteq> {CHR '',''}"
    using Split_only_sep [OF assms that] 1 by simp
  have 7: "extractTables statements mt = (Inr [], snd (createTables_loop statements))"
    if s: "set mt \<subseteq> {CHR '',''}"
      and n: "list_all (\<lambda>s. relname_of s \<noteq> None \<and> relname_of s \<noteq> Some []) (createStmts statements)"
  proof -
    have al: "allowlist mt = {[]}"
      using 6 [OF s] dom_tables_of [of mt] by simp
    have sel: "\<not> selected (allowlist mt) s" if "s \<in> set (createStmts statements)" for s
      using n that by (auto simp: al selected_def list_all_iff)
    have skip: "tables_loop (tables_of mt) cts (acc, lg) = (Inr acc, lg)"
      if "set cts \<subseteq> set (createStmts statements)" for cts acc lg
      using that
    proof (induction cts)
      case Nil
      then show ?case by simp
    next
      case (Cons c cts)
      then have c: "c \<in> set (createStmts statements)" by simp
      then obtain tn where tn: "relname_of c = Some tn"
        using n by (auto simp: list_all_iff)
      then obtain relation where r: "Relation c = Some relation" "Relname relation = Some tn"
        by (auto simp: relname_of_def split: option.splits)
      show ?case
        using skip_iff [OF tn, of mt] sel [OF c] r Cons by simp
    qed
    show ?thesis
      using skip [of "createStmts statements" "[]"]
      by (simp add: extractTables_def createTables_loop_eq)
  qed
  have 8: "\<not> index_map (tables_of (pre @ tableName @ post)) tableName"
    if "CHR '','' \<notin> set (pre @ tableName @ post)" "pre @ post \<noteq> []"
  proof -
    have "strings_Split (pre @ tableName @ post) (CHR '','') = [pre @ tableName @ post]"
      using Split_from_no_sep_id [OF that(1), of "[]"] by (simp add: strings_Split_def)
    moreover have len: "0 < length pre + length post"
      using that(2) by (cases pre) auto
    have "tableName \<noteq> pre @ tableName @ post"
    proof
      assume "tableName = pre @ tableName @ post"
      then have "length tableName = length (pre @ tableName @ post)"
        by (rule arg_cong)
      then show False using len by simp
    qed
    moreover have "pre @ tableName @ post \<noteq> []"
      using that(2) by auto
    ultimately show ?thesis
      by (simp add: index_map_tables_of allowlist_def)
  qed
  show ?thesis
    using 1 2 3 4 5 6 7 8 by blast
qed

theorem allowlist_exact_witness:
  "strings_Split ''users, posts'' (CHR '','') = [''users'', '' posts'']
   \<and> dom (tables_of ''users, posts'') = {''users'', '' posts''}
   \<and> index_map (tables_of ''users, posts'') ''users''
   \<and> \<not> index_map (tables_of ''users, posts'') ''posts''
   \<and> \<not> index_map (tables_of ''users, posts'') ''Users''
   \<and> strings_Split '','' (CHR '','') = [[], []]
   \<and> dom (tables_of '','') = {[]}
   \<and> extractTables schema_statements '','' = (Inr [], [''unexpected statement type pg_query.A_Const''])
   \<and> \<not> index_map (tables_of '' users '') ''users''"
proof -
  have s: "strings_Split ''users, posts'' (CHR '','') = [''users'', '' posts'']"
    "strings_Split '','' (CHR '','') = [[], []]"
    by (simp_all add: strings_Split_def)
  have ne: "''users, posts'' \<noteq> []" "'','' \<noteq> []"
    by simp_all
  note t = allowlist_exact [OF ne(1), of _ "[]" "[]" "[]"]
  note c = allowlist_exact [OF ne(2), of "[]" schema_statements "'' ''" "'' ''"]
  have 1: "dom (tables_of ''users, posts'') = {''users'', '' posts''}"
    using t [of "[]"] s by auto
  have 2: "index_map (tables_of ''users, posts'') ''users''"
    "\<not> index_map (tables_of ''users, posts'') ''posts''"
    "\<not> index_map (tables_of ''users, posts'') ''Users''"
    using t [of "''users''"] t [of "''posts''"] t [of "''Users''"] s by simp_all
  have sub: "set '','' \<subseteq> {CHR '',''}"
    by simp
  have 3: "dom (tables_of '','') = {[]}"
    using c sub by blast
  have n: "list_all (\<lambda>s. relname_of s \<noteq> None \<and> relname_of s \<noteq> Some []) (createStmts schema_statements)"
    by (simp add: createStmts_schema relname_of_examples)
  have l: "snd (createTables_loop schema_statements) = [''unexpected statement type pg_query.A_Const'']"
    by (simp add: createTables_loop_def schema_statements_def)
  have "extractTables schema_statements '','' = (Inr [], snd (createTables_loop schema_statements))"
    using c sub n by blast
  then have 4: "extractTables schema_statements '','' = (Inr [], [''unexpected statement type pg_query.A_Const''])"
    unfolding l .
  have "CHR '','' \<notin> set ('' '' @ ''users'' @ '' '') \<and> '' '' @ '' '' \<noteq> []"
    by simp
  then have "\<not> index_map (tables_of ('' '' @ ''users'' @ '' '')) ''users''"
    using allowlist_exact [OF ne(2), of "''users''" "[]" "'' ''" "'' ''"] by blast
  then have 5: "\<not> index_map (tables_of '' users '') ''users''"
    by simp
  show ?thesis
    using s 1 2 3 4 5 by (intro conjI)
qed

text \<open>
  C6. A template that does not parse ends the run at \<^verbatim>\<open>template.Parse\<close>, with one logged
  line and status 1. A template whose output the formatter refuses ends the run with the
  raw output and one logged line on standard error, and status 1. Whenever \<^verbatim>\<open>main\<close> does
  not return normally (a fatal error, the usage, a panic), the files and standard output
  are as they were; and when the output part returns normally, the template was read,
  parsed and executed and the formatter accepted its output, and the only change is
  the formatted text at the output path or on standard output.
\<close>

theorem fatal_errors_leave_output:
  "((if templateFile fl \<noteq> [] then ioutil_ReadFile e (templateFile fl) else Inr gencodeTmpl)
        = Inr templateText
      \<and> template_Parse e (fmap e) templateText = Inl err
      \<longrightarrow> generate e fl data w = (Exited 1, log_Print [''unable to parse template: '' @ err] w))
   \<and> ((if templateFile fl \<noteq> [] then ioutil_ReadFile e (templateFile fl) else Inr gencodeTmpl)
        = Inr templateText
      \<and> template_Parse e (fmap e) templateText = Inr tmpl
      \<and> template_Execute e tmpl data = Inr buf
      \<and> format_Source e buf = Inl err
      \<longrightarrow> generate e fl data w
          = (Exited 1, log_Print [buf, ''generated bad code: '' @ err] w))
   \<and> (fst (main e fl w) \<noteq> Returned
      \<longrightarrow> files (snd (main e fl w)) = files w \<and> stdout (snd (main e fl w)) = stdout w)
   \<and> (fst (generate e fl data w) = Returned
      \<longrightarrow> (\<exists>text tmpl buf formatted.
            (if templateFile fl \<noteq> [] then ioutil_ReadFile e (templateFile fl) else Inr gencodeTmpl)
              = Inr text
            \<and> template_Parse e (fmap e) text = Inr tmpl
            \<and> template_Execute e tmpl data = Inr buf
            \<and> format_Source e buf = Inr formatted
            \<and> snd (generate e fl data w) =
                (if outputFile fl \<noteq> [] then w\<lparr>files := (files w)(outputFile fl \<mapsto> formatted)\<rparr>
                 else w\<lparr>stdout := stdout w @ formatted\<rparr>)))"
proof -
  have 1: "generate e fl data w = (Exited 1, log_Print [''unable to parse template: '' @ err] w)"
    if "(if templateFile fl \<noteq> [] then ioutil_ReadFile e (templateFile fl) else Inr gencodeTmpl)
        = Inr templateText" "template_Parse e (fmap e) templateText = Inl err"
    using that by (simp add: generate_def log_Fatalf_def)
  have 2: "generate e fl data w = (Exited 1, log_Print [buf, ''generated bad code: '' @ err] w)"
    if "(if templateFile fl \<noteq> [] then ioutil_ReadFile e (templateFile fl) else Inr gencodeTmpl)
        = Inr templateText" "template_Parse e (fmap e) templateText = Inr tmpl"
      "template_Execute e tmpl data = Inr buf" "format_Source e buf = Inl err"
    using that by (simp add: generate_def log_Fatalf_def log_Print_def)
  have 4: "\<exists>text tmpl buf formatted.
            (if templateFile fl \<noteq> [] then ioutil_ReadFile e (templateFile fl) else Inr gencodeTmpl)
              = Inr text
            \<and> template_Parse e (fmap e) text = Inr tmpl
            \<and> template_Execute e tmpl data = Inr buf
            \<and> format_Source e buf = Inr formatted
            \<and> snd (generate e fl data w) =
                (if outputFile fl \<noteq> [] then w\<lparr>files := (files w)(outputFile fl \<mapsto> formatted)\<rparr>
                 else w\<lparr>stdout := stdout w @ formatted\<rparr>)"
    if "fst (generate e fl data w) = Returned"
    using generate_cases [of e fl data w] that by (elim disjE exE conjE) (simp, simp, force)
  show ?thesis
    using 1 2 main_not_Returned [of e fl w] 4 by blast
qed

theorem fatal_errors_leave_output_witness:
  "main run_env (run_flags ''broken.tmpl'' ''out.go'') run_world
     = (Exited 1,
        run_world\<lparr>stderr := schema_log @ [''unable to parse template: template: :1: unclosed action'']\<rparr>)
   \<and> main run_env (run_flags ''text.tmpl'' ''out.go'') run_world
     = (Exited 1,
        run_world\<lparr>stderr := schema_log
           @ [''not a Go file'', ''generated bad code: 1:1: expected package'']\<rparr>)
   \<and> files (snd (main run_env (run_flags ''go.tmpl'' ''/'') run_world)) = files run_world
   \<and> main run_env (run_flags ''go.tmpl'' ''out.go'') run_world
     = (Returned, run_world\<lparr>files := [''out.go'' \<mapsto> ''package p''], stderr := schema_log\<rparr>)"
proof -
  let ?data = "\<lparr>Package = ''models'', Tables = [users_table, posts_table, users_table]\<rparr>"
  let ?w = "log_Print schema_log run_world"
  have r: "ioutil_ReadFile run_env ''broken.tmpl'' = Inr ''{{range''"
    "ioutil_ReadFile run_env ''text.tmpl'' = Inr ''not a Go file''"
    "ioutil_ReadFile run_env ''go.tmpl'' = Inr ''package p''"
    by (simp_all add: run_env_def)
  have p: "template_Parse run_env (fmap run_env) ''{{range'' = Inl ''template: :1: unclosed action''"
    "template_Parse run_env (fmap run_env) ''not a Go file'' = Inr ''not a Go file''"
    "template_Execute run_env ''not a Go file'' ?data = Inr ''not a Go file''"
    "format_Source run_env ''not a Go file'' = Inl ''1:1: expected package''"
    by (simp_all add: run_env_def)
  have f: "templateFile (run_flags t out) = t" "outputFile (run_flags t out) = out" for t out
    by (simp_all add: run_flags_def)
  have 1: "generate run_env (run_flags ''broken.tmpl'' ''out.go'') ?data ?w
      = (Exited 1, log_Print [''unable to parse template: template: :1: unclosed action''] ?w)"
    using fatal_errors_leave_output
      [of "run_flags ''broken.tmpl'' ''out.go''" run_env "''{{range''"
         "''template: :1: unclosed action''" ?data ?w]
    by (simp add: f r p)
  have 2: "generate run_env (run_flags ''text.tmpl'' ''out.go'') ?data ?w
      = (Exited 1, log_Print [''not a Go file'', ''generated bad code: 1:1: expected package''] ?w)"
    using fatal_errors_leave_output
      [of "run_flags ''text.tmpl'' ''out.go''" run_env "''not a Go file''"
         "''1:1: expected package''" ?data ?w "''not a Go file''" "''not a Go file''"]
    by (simp add: f r p)
  have g: "template_Parse run_env (fmap run_env) ''package p'' = Inr ''package p''"
    "template_Execute run_env ''package p'' ?data = Inr ''package p''"
    "format_Source run_env ''package p'' = Inr ''package p''"
    "os_Create run_env ''/'' = Some ''open /: is a directory''"
    "os_Create run_env ''out.go'' = None"
    by (simp_all add: run_env_def)
  have 3: "main run_env (run_flags ''go.tmpl'' ''/'') run_world
      = (Exited 1, log_Print [''error creating output file: open /: is a directory''] ?w)"
    by (simp add: main_run generate_def f r g log_Fatalf_def)
  have 4: "main run_env (run_flags ''go.tmpl'' ''out.go'') run_world
      = (Returned, ?w\<lparr>files := (files ?w)(''out.go'' \<mapsto> ''package p'')\<rparr>)"
    by (simp add: main_run generate_def f r g)
  have m1: "main run_env (run_flags ''broken.tmpl'' ''out.go'') run_world
      = (Exited 1, log_Print [''unable to parse template: template: :1: unclosed action''] ?w)"
    unfolding main_run by (rule 1)
  have m2: "main run_env (run_flags ''text.tmpl'' ''out.go'') run_world
      = (Exited 1, log_Print [''not a Go file'', ''generated bad code: 1:1: expected package''] ?w)"
    unfolding main_run by (rule 2)
  show ?thesis
    unfolding m1 m2 3 4
    by (simp add: log_Print_def run_world_def)
qed


end
